theory Spec2Isabelle
  imports Main "HOL-Library.Sublist"
begin

section \<open>The journey loop of \<open>MysteryShopperAI\<close> (src/app.py)\<close>

text \<open>
  The class \<open>MysteryShopperAI\<close> drives a browser page and a vision model. Both are
  outside the program, so every call to them is a field of a record \<open>world\<close> that
  gives the call's outcome: \<open>Inr\<close> its value, or \<open>Inl\<close> the message \<open>str(e)\<close> of the
  exception it raises. The methods are functions of the world and of the instance
  state, and return the new state together with the list of external calls made
  (the trace).

  Conventions of the embedding:
  \<^item> \<open>asyncio.sleep\<close>, \<open>datetime.now\<close>, \<open>list.append\<close> and the optional
    \<open>progress_callback\<close> return normally; the callback's messages are not part of the
    model, but the expressions evaluated to build them are, since they can raise;
    \<open>cb\<close> says whether a callback was passed;
  \<^item> \<open>json.loads\<close> and \<open>repr\<close> of a parsed value are parameters (fields of the
    world), not re-implemented;
  \<^item> \<open>page.set_default_timeout\<close> is part of \<open>new_page\<close>, and
    \<open>async_playwright()\<close> itself starts and stops normally;
  \<^item> what an external call raises is an \<open>Exception\<close>, so that both
    \<open>except Exception\<close> and the bare \<open>except\<close> catch it.
\<close>

subsection \<open>Values returned by \<open>json.loads\<close>\<close>

datatype json =
    JNull
  | JBool bool
  | JInt int
  | JFloat string
  | JStr string
  | JList "json list"
  | JDict "(string \<times> json) list"

text \<open>Exceptions raised by the interpreter itself inside a step.\<close>

datatype py_error = KeyError string | TypeError

text \<open>\<open>d[key]\<close> with a string key: only a dict can be subscripted by a string.\<close>

fun subscript :: "json \<Rightarrow> string \<Rightarrow> py_error + json" where
  "subscript (JDict kvs) key =
     (case map_of kvs key of None \<Rightarrow> Inl (KeyError key) | Some v \<Rightarrow> Inr v)"
| "subscript _ key = Inl TypeError"

text \<open>\<open>v[:n]\<close>: strings and lists are sliced, everything else raises.\<close>

fun slice_to :: "nat \<Rightarrow> json \<Rightarrow> py_error + json" where
  "slice_to n (JStr s) = Inr (JStr (take n s))"
| "slice_to n (JList xs) = Inr (JList (take n xs))"
| "slice_to n _ = Inl TypeError"

subsection \<open>The external world\<close>

datatype image = Image string

datatype prompt =
    DecisionPrompt string int "string list"
  | UxPrompt string

datatype locator =
    GetByText json bool
  | GetByRole string json
  | LocatorText json

text \<open>
  \<open>GetByText l exact\<close> is \<open>page.get_by_text(l, exact=exact).first\<close>,
  \<open>GetByRole r l\<close> is \<open>page.get_by_role(r, name=l).first\<close>, and
  \<open>LocatorText l\<close> is \<open>page.locator(f"text={l}").first\<close>.
\<close>

record world =
  launch :: "string + unit"
  new_context :: "string + unit"
  new_page :: "string + unit"
  goto_commit :: "string \<Rightarrow> string + unit"
  goto_full :: "string \<Rightarrow> string + unit"
  now :: "int \<Rightarrow> string"
  screenshot :: "int \<Rightarrow> string + unit"
  page_url :: "int \<Rightarrow> string"
  click :: "int \<Rightarrow> locator \<Rightarrow> string + unit"
  scroll :: "int \<Rightarrow> string + unit"
  close :: "string + unit"
  image_open :: "string \<Rightarrow> string + image"
  generate_content :: "prompt \<Rightarrow> image \<Rightarrow> string + string"
  json_loads :: "string \<Rightarrow> string + json"
  repr :: "json \<Rightarrow> string"

text \<open>
  \<open>now w k\<close> is \<open>datetime.now().strftime('%H%M%S')\<close> when step \<open>k\<close> takes its
  screenshot; \<open>screenshot\<close>, \<open>page_url\<close>, \<open>click\<close> and \<open>scroll\<close> are indexed by the step
  at which the loop calls them.
\<close>

datatype event =
    EvLaunch
  | EvNewContext
  | EvNewPage
  | EvGotoCommit string
  | EvGotoFull string
  | EvScreenshot int string
  | EvDecide int string
  | EvScore int string string
  | EvClick int locator
  | EvScroll int
  | EvClose

subsection \<open>The instance\<close>

record step_record =
  path :: string
  step :: int
  url :: string
  decision :: json
  ux_analysis :: json

record shopper =
  screenshots :: "step_record list"
  action_history :: "string list"

text \<open>\<open>__init__\<close>: both lists start empty.\<close>

definition init :: shopper where
  "init = \<lparr>screenshots = [], action_history = []\<rparr>"

record jstate =
  self :: shopper
  trace :: "event list"

definition emit :: "event \<Rightarrow> jstate \<Rightarrow> jstate" where
  "emit ev s = s\<lparr>trace := trace s @ [ev]\<rparr>"

subsection \<open>Formatting\<close>

fun str_nat :: "nat \<Rightarrow> string" where
  "str_nat n =
     (if n < 10 then [''0123456789'' ! n]
      else str_nat (n div 10) @ [''0123456789'' ! (n mod 10)])"

declare str_nat.simps [simp del]

definition str_int :: "int \<Rightarrow> string" where
  "str_int i = (if i < 0 then CHR ''-'' # str_nat (nat (- i)) else str_nat (nat i))"

text \<open>\<open>str(v)\<close> as an f-string field: a string is itself, anything else its \<open>repr\<close>.\<close>

definition py_str :: "world \<Rightarrow> json \<Rightarrow> string" where
  "py_str w v = (case v of JStr s \<Rightarrow> s | _ \<Rightarrow> repr w v)"

text \<open>\<open>history[-3:] if history else []\<close>\<close>

definition last3 :: "'a list \<Rightarrow> 'a list" where
  "last3 history = drop (length history - 3) history"

subsection \<open>\<open>get_ai_decision\<close> and \<open>analyze_screenshot_ux\<close>\<close>

definition decision_default :: "string \<Rightarrow> json" where
  "decision_default e = JDict
     [(''action'', JStr ''finish''),
      (''label'', JStr ''Analysis complete''),
      (''value'', JStr ''''),
      (''reason'', JStr (''AI error: '' @ take 50 e)),
      (''ux_observation'', JStr ''Error occurred'')]"

definition get_ai_decision :: "world \<Rightarrow> string \<Rightarrow> string \<Rightarrow> string list \<Rightarrow> int \<Rightarrow> json" where
  "get_ai_decision w screenshot_path goal history stepn =
     (case image_open w screenshot_path of
        Inl e \<Rightarrow> decision_default e
      | Inr raw_image \<Rightarrow>
          (case generate_content w (DecisionPrompt goal stepn (last3 history)) raw_image of
             Inl e \<Rightarrow> decision_default e
           | Inr text \<Rightarrow>
               (case json_loads w text of
                  Inl e \<Rightarrow> decision_default e
                | Inr v \<Rightarrow> v)))"

definition ux_default :: "string \<Rightarrow> json" where
  "ux_default e = JDict
     [(''page_type'', JStr ''unknown''),
      (''ux_issues'', JList []),
      (''positive_aspects'', JList []),
      (''actionable_suggestions'', JList []),
      (''conversion_score'', JInt 0),
      (''overall_assessment'', JStr (''Analysis error: '' @ take 50 e))]"

definition analyze_screenshot_ux :: "world \<Rightarrow> string \<Rightarrow> string \<Rightarrow> json" where
  "analyze_screenshot_ux w screenshot_path page_context =
     (case image_open w screenshot_path of
        Inl e \<Rightarrow> ux_default e
      | Inr raw_image \<Rightarrow>
          (case generate_content w (UxPrompt page_context) raw_image of
             Inl e \<Rightarrow> ux_default e
           | Inr text \<Rightarrow>
               (case json_loads w text of
                  Inl e \<Rightarrow> ux_default e
                | Inr v \<Rightarrow> v)))"

text \<open>
  The outcome of the three calls inside the \<open>try\<close> of either method: the first
  exception, or the parsed response.
\<close>

definition oracle_response :: "world \<Rightarrow> string \<Rightarrow> prompt \<Rightarrow> string + json" where
  "oracle_response w screenshot_path p =
     (case image_open w screenshot_path of
        Inl e \<Rightarrow> Inl e
      | Inr raw_image \<Rightarrow>
          (case generate_content w p raw_image of
             Inl e \<Rightarrow> Inl e
           | Inr text \<Rightarrow> json_loads w text))"

subsection \<open>\<open>run_journey\<close>\<close>

datatype flow = Next | Break

text \<open>The list of the four lambdas of the click loop, in the order of the source.\<close>

definition click_strategies :: "json \<Rightarrow> locator list" where
  "click_strategies label =
     [GetByText label False,
      GetByRole ''button'' label,
      GetByRole ''link'' label,
      LocatorText label]"

text \<open>
  \<open>for strategy in [...]\<close>: the \<open>try\<close> resolves the element and clicks it; on
  success it sets \<open>clicked\<close>, appends to the action history and breaks; the bare
  \<open>except\<close> goes on to the next strategy.
\<close>

fun click_loop :: "world \<Rightarrow> int \<Rightarrow> json \<Rightarrow> locator list \<Rightarrow> jstate \<Rightarrow> bool \<times> jstate" where
  "click_loop w stepn label [] s = (False, s)"
| "click_loop w stepn label (strategy # rest) s =
     (let s1 = emit (EvClick stepn strategy) s in
      case click w stepn strategy of
        Inr _ \<Rightarrow>
          (True, s1\<lparr>self := (self s1)\<lparr>action_history :=
                     action_history (self s1) @ [''Clicked: '' @ py_str w label]\<rparr>\<rparr>)
      | Inl _ \<Rightarrow> click_loop w stepn label rest s1)"

text \<open>
  The progress message after the record is stored is
  \<open>f"... {decision['action']} - {decision['label'][:40]}"\<close>; it is built only when a
  callback was passed.
\<close>

definition progress_line :: "json \<Rightarrow> py_error + unit" where
  "progress_line dec =
     (case subscript dec ''action'' of
        Inl e \<Rightarrow> Inl e
      | Inr _ \<Rightarrow>
          (case subscript dec ''label'' of
             Inl e \<Rightarrow> Inl e
           | Inr l \<Rightarrow> (case slice_to 40 l of Inl e \<Rightarrow> Inl e | Inr _ \<Rightarrow> Inr ())))"

text \<open>
  The part of a step after the record is stored: the message, then the action. When no
  strategy clicked and a callback was passed, the warning is built from \<open>label[:30]\<close>.
  A failing scroll is swallowed by its bare \<open>except\<close>.
\<close>

definition dispatch :: "world \<Rightarrow> bool \<Rightarrow> int \<Rightarrow> json \<Rightarrow> jstate \<Rightarrow> (py_error + flow) \<times> jstate" where
  "dispatch w cb stepn dec s =
     (case (if cb then progress_line dec else Inr ()) of
        Inl e \<Rightarrow> (Inl e, s)
      | Inr _ \<Rightarrow>
          (case subscript dec ''action'' of
             Inl e \<Rightarrow> (Inl e, s)
           | Inr action \<Rightarrow>
               if action = JStr ''finish'' then (Inr Break, s)
               else if action = JStr ''click'' then
                 (case subscript dec ''label'' of
                    Inl e \<Rightarrow> (Inl e, s)
                  | Inr label \<Rightarrow>
                      (case click_loop w stepn label (click_strategies label) s of
                         (clicked, s') \<Rightarrow>
                           if \<not> clicked \<and> cb then
                             (case slice_to 30 label of
                                Inl e \<Rightarrow> (Inl e, s')
                              | Inr _ \<Rightarrow> (Inr Next, s'))
                           else (Inr Next, s')))
               else if action = JStr ''scroll'' then
                 (let s' = emit (EvScroll stepn) s in
                  case scroll w stepn of
                    Inl _ \<Rightarrow> (Inr Next, s')
                  | Inr _ \<Rightarrow> (Inr Next, s'))
               else (Inr Next, s)))"

definition screenshot_name :: "world \<Rightarrow> int \<Rightarrow> string" where
  "screenshot_name w stepn = ''step_'' @ str_int stepn @ ''_'' @ now w stepn @ ''.png''"

text \<open>The body of the \<open>try\<close> of one iteration.\<close>

definition step_body :: "world \<Rightarrow> bool \<Rightarrow> string \<Rightarrow> int \<Rightarrow> jstate \<Rightarrow> (py_error + flow) \<times> jstate" where
  "step_body w cb goal stepn s =
     (let screenshot_path = screenshot_name w stepn;
          s1 = emit (EvScreenshot stepn screenshot_path) s
      in case screenshot w stepn of
           Inl e \<Rightarrow> (Inr Next, s1)
         | Inr _ \<Rightarrow>
             (let dec = get_ai_decision w screenshot_path goal (action_history (self s1)) stepn;
                  s2 = emit (EvDecide stepn screenshot_path) s1;
                  ux = analyze_screenshot_ux w screenshot_path (page_url w stepn);
                  s3 = emit (EvScore stepn screenshot_path (page_url w stepn)) s2;
                  s4 = s3\<lparr>self := (self s3)\<lparr>screenshots := screenshots (self s3) @
                         [\<lparr>path = screenshot_path, step = stepn, url = page_url w stepn,
                           decision = dec, ux_analysis = ux\<rparr>]\<rparr>\<rparr>
              in dispatch w cb stepn dec s4))"

text \<open>One iteration: the \<open>except Exception\<close> at the step boundary continues the loop.\<close>

definition journey_step :: "world \<Rightarrow> bool \<Rightarrow> string \<Rightarrow> int \<Rightarrow> jstate \<Rightarrow> flow \<times> jstate" where
  "journey_step w cb goal stepn s =
     (case step_body w cb goal stepn s of
        (Inl e, s') \<Rightarrow> (Next, s')
      | (Inr f, s') \<Rightarrow> (f, s'))"

fun journey_loop :: "world \<Rightarrow> bool \<Rightarrow> string \<Rightarrow> int list \<Rightarrow> jstate \<Rightarrow> jstate" where
  "journey_loop w cb goal [] s = s"
| "journey_loop w cb goal (stepn # rest) s =
     (case journey_step w cb goal stepn s of
        (Break, s') \<Rightarrow> s'
      | (Next, s') \<Rightarrow> journey_loop w cb goal rest s')"

text \<open>\<open>await browser.close()\<close> followed by \<open>return v\<close>.\<close>

definition close_and_return ::
  "world \<Rightarrow> step_record list \<Rightarrow> jstate \<Rightarrow> (string + step_record list) \<times> jstate" where
  "close_and_return w v s =
     (let s' = emit EvClose s in
      case close w of Inl e \<Rightarrow> (Inl e, s') | Inr _ \<Rightarrow> (Inr v, s'))"

text \<open>The steps and the final close, reached once the page is loaded.\<close>

definition steps_and_close ::
  "world \<Rightarrow> bool \<Rightarrow> string \<Rightarrow> int \<Rightarrow> jstate \<Rightarrow> (string + step_record list) \<times> jstate" where
  "steps_and_close w cb goal max_steps s =
     (let s' = journey_loop w cb goal [1..max_steps] s in
      close_and_return w (screenshots (self s')) s')"

text \<open>
  The body of the outer \<open>try\<close>. The flag \<open>page_loaded\<close> is true whenever the test
  \<open>if not page_loaded\<close> is reached (the handler of the second strategy returns), so
  that test has no branch here.
\<close>

definition journey_body ::
  "world \<Rightarrow> shopper \<Rightarrow> string \<Rightarrow> string \<Rightarrow> int \<Rightarrow> bool \<Rightarrow> (string + step_record list) \<times> jstate" where
  "journey_body w me start_url goal max_steps cb =
     (let s0 = \<lparr>self = me, trace = [EvLaunch]\<rparr> in
      case launch w of
        Inl e \<Rightarrow> (Inl e, s0)
      | Inr _ \<Rightarrow>
          (let s1 = emit EvNewContext s0 in
           case new_context w of
             Inl e \<Rightarrow> (Inl e, s1)
           | Inr _ \<Rightarrow>
               (let s2 = emit EvNewPage s1 in
                case new_page w of
                  Inl e \<Rightarrow> (Inl e, s2)
                | Inr _ \<Rightarrow>
                    (let s3 = emit (EvGotoCommit start_url) s2 in
                     case goto_commit w start_url of
                       Inr _ \<Rightarrow> steps_and_close w cb goal max_steps s3
                     | Inl e1 \<Rightarrow>
                         (let s4 = emit (EvGotoFull start_url) s3 in
                          case goto_full w start_url of
                            Inr _ \<Rightarrow> steps_and_close w cb goal max_steps s4
                          | Inl e2 \<Rightarrow> close_and_return w [] s4)))))"

text \<open>
  \<open>run_journey\<close>: the outer \<open>except Exception\<close> returns the empty list. The result is
  the returned list and the final state (the instance and the trace).
\<close>

definition run_journey ::
  "world \<Rightarrow> shopper \<Rightarrow> string \<Rightarrow> string \<Rightarrow> int \<Rightarrow> bool \<Rightarrow> step_record list \<times> jstate" where
  "run_journey w me start_url goal max_steps cb =
     (case journey_body w me start_url goal max_steps cb of
        (Inl e, s) \<Rightarrow> ([], s)
      | (Inr v, s) \<Rightarrow> (v, s))"

subsection \<open>Notions used to state the properties\<close>

text \<open>
  A record as one iteration stores it: the screenshot of its step succeeded, its path
  and URL are the ones of that step, and both analyses were computed from its path.
\<close>

definition recorded :: "world \<Rightarrow> string \<Rightarrow> step_record \<Rightarrow> bool" where
  "recorded w goal r \<longleftrightarrow>
     screenshot w (step r) = Inr () \<and>
     path r = screenshot_name w (step r) \<and>
     url r = page_url w (step r) \<and>
     ux_analysis r = analyze_screenshot_ux w (path r) (url r) \<and>
     (\<exists>history. decision r = get_ai_decision w (path r) goal history (step r))"

text \<open>
  The run reaches \<open>return self.screenshots\<close>: the browser starts, one of the two
  loading strategies succeeds, and the final \<open>browser.close()\<close> does not raise.
\<close>

definition completes :: "world \<Rightarrow> string \<Rightarrow> bool" where
  "completes w start_url \<longleftrightarrow>
     launch w = Inr () \<and> new_context w = Inr () \<and> new_page w = Inr () \<and>
     (goto_commit w start_url = Inr () \<or> goto_full w start_url = Inr ()) \<and>
     close w = Inr ()"

text \<open>The state in which the step loop is entered.\<close>

definition entry_state :: "world \<Rightarrow> shopper \<Rightarrow> string \<Rightarrow> jstate" where
  "entry_state w me start_url =
     \<lparr>self = me,
      trace = [EvLaunch, EvNewContext, EvNewPage, EvGotoCommit start_url] @
              (case goto_commit w start_url of Inr _ \<Rightarrow> [] | Inl _ \<Rightarrow> [EvGotoFull start_url])\<rparr>"

text \<open>The step whose action an event carries out, if it is a click or a scroll.\<close>

fun action_step :: "event \<Rightarrow> int option" where
  "action_step (EvClick k l) = Some k"
| "action_step (EvScroll k) = Some k"
| "action_step _ = None"

text \<open>
  The locators a click loop gets to: those that fail, then the first that succeeds.
\<close>

definition attempted :: "world \<Rightarrow> int \<Rightarrow> locator list \<Rightarrow> locator list" where
  "attempted w k strs =
     takeWhile (\<lambda>st. isl (click w k st)) strs @ take 1 (dropWhile (\<lambda>st. isl (click w k st)) strs)"

text \<open>
  In a trace, the screenshot of a record is followed at once by the decision call and
  the scoring call on the same path, and no click or scroll of the record's step comes
  before them.
\<close>

definition analysed_first :: "step_record \<Rightarrow> event list \<Rightarrow> bool" where
  "analysed_first r tr \<longleftrightarrow>
     (\<exists>pre post.
        tr = pre @ [EvScreenshot (step r) (path r), EvDecide (step r) (path r),
                    EvScore (step r) (path r) (url r)] @ post \<and>
        (\<forall>ev \<in> set pre. action_step ev \<noteq> Some (step r)))"

text \<open>
  A decision that makes \<open>dispatch\<close> reach the \<open>finish\<close> branch: its action is
  \<open>finish\<close> and, when a callback was passed, the progress message can be built.
\<close>

definition halts :: "bool \<Rightarrow> json \<Rightarrow> bool" where
  "halts cb dec \<longleftrightarrow>
     subscript dec ''action'' = Inr (JStr ''finish'') \<and> (cb \<longrightarrow> progress_line dec = Inr ())"

text \<open>
  The page types the prompt of \<open>analyze_screenshot_ux\<close> asks for:
  \<open>"homepage | signup | login | other"\<close>.
\<close>

definition page_type_enum :: "json list" where
  "page_type_enum = [JStr ''homepage'', JStr ''signup'', JStr ''login'', JStr ''other'']"

subsection \<open>Concrete worlds\<close>

text \<open>
  A world in which every browser call succeeds except clicks, which time out; the
  model answers the decision prompt of step \<open>k\<close> with the text \<open>acts k\<close> and the UX
  prompt with \<open>ux\<close>. \<open>demo_json\<close> parses these texts: the empty text is not JSON.
\<close>

definition demo_decision :: "string \<Rightarrow> json" where
  "demo_decision action = JDict
     [(''action'', JStr action),
      (''label'', JStr ''Sign in''),
      (''value'', JStr []),
      (''reason'', JStr ''next''),
      (''ux_observation'', JStr ''none'')]"

definition demo_json :: "string \<Rightarrow> string + json" where
  "demo_json text =
     (if text = ''ux'' then Inr (JDict
        [(''page_type'', JStr ''homepage''),
         (''ux_issues'', JList []),
         (''positive_aspects'', JList []),
         (''actionable_suggestions'', JList []),
         (''conversion_score'', JInt 75),
         (''overall_assessment'', JStr ''fine'')])
      else if text = [] then Inl ''Expecting value''
      else Inr (demo_decision text))"

definition demo_world :: "(int \<Rightarrow> string) \<Rightarrow> world" where
  "demo_world acts =
     \<lparr>launch = Inr (), new_context = Inr (), new_page = Inr (),
      goto_commit = (\<lambda>u. Inr ()), goto_full = (\<lambda>u. Inr ()),
      now = (\<lambda>k. ''120000''), screenshot = (\<lambda>k. Inr ()),
      page_url = (\<lambda>k. ''http://shop.test/''),
      click = (\<lambda>k l. Inl ''Timeout 5000ms exceeded''),
      scroll = (\<lambda>k. Inr ()), close = Inr (),
      image_open = (\<lambda>p. Inr (Image p)),
      generate_content =
        (\<lambda>p img. case p of DecisionPrompt g k h \<Rightarrow> Inr (acts k) | UxPrompt c \<Rightarrow> Inr ''ux''),
      json_loads = demo_json, repr = (\<lambda>v. ''?'')\<rparr>"

text \<open>The model always answers with the same action.\<close>

definition scroll_world :: world where
  "scroll_world = demo_world (\<lambda>k. ''scroll'')"

definition finish_world :: world where
  "finish_world = demo_world (\<lambda>k. ''finish'')"

definition click_world :: world where
  "click_world = demo_world (\<lambda>k. ''click'')"

text \<open>Only the \<open>link\<close> locator, or only the non-exact text locator, can be clicked.\<close>

definition link_click_world :: world where
  "link_click_world = click_world
     \<lparr>click := \<lambda>k st. if st = GetByRole ''link'' (JStr ''Sign in'') then Inr ()
                       else Inl ''Timeout 5000ms exceeded''\<rparr>"

definition text_click_world :: world where
  "text_click_world = click_world
     \<lparr>click := \<lambda>k st. if st = GetByText (JStr ''Sign in'') False then Inr ()
                       else Inl ''Timeout 5000ms exceeded''\<rparr>"

text \<open>No screenshot file can be opened, so both calls to the model fail.\<close>

definition blind_world :: world where
  "blind_world = scroll_world\<lparr>image_open := \<lambda>p. Inl ''cannot identify image file''\<rparr>"

text \<open>The browser starts, but creating the context raises.\<close>

definition no_context_world :: world where
  "no_context_world = finish_world\<lparr>new_context := Inl ''Target closed''\<rparr>"

text \<open>The screenshot of step 1 times out; the later ones succeed.\<close>

definition late_shot_world :: world where
  "late_shot_world = scroll_world
     \<lparr>screenshot := \<lambda>k. if k = 1 then Inl ''Timeout 20000ms exceeded'' else Inr ()\<rparr>"

text \<open>
  The model answers every decision prompt with \<open>{"action": "finish"}\<close>, a reply that
  has no label.
\<close>

definition bare_finish_world :: world where
  "bare_finish_world = finish_world
     \<lparr>json_loads := \<lambda>text. if text = ''ux'' then demo_json text
                           else Inr (JDict [(''action'', JStr ''finish'')])\<rparr>"

section \<open>Properties\<close>

subsection \<open>Evaluation of the concrete worlds\<close>

lemma upto_1_2: "[1..2] = [1, 2::int]"
  by (simp add: upto.simps)

lemma upto_1_3: "[1..3] = [1, 2, 3::int]"
  by (simp add: upto.simps)

lemmas run_defs =
  run_journey_def journey_body_def steps_and_close_def close_and_return_def
  journey_step_def step_body_def dispatch_def progress_line_def click_strategies_def
  get_ai_decision_def analyze_screenshot_ux_def decision_default_def ux_default_def
  screenshot_name_def str_int_def str_nat.simps emit_def init_def py_str_def last3_def
  demo_world_def demo_json_def demo_decision_def Let_def upto_1_2 upto_1_3

lemmas world_defs =
  scroll_world_def finish_world_def click_world_def link_click_world_def text_click_world_def
  blind_world_def no_context_world_def late_shot_world_def bare_finish_world_def

lemma scroll_run_steps:
  "map step (fst (run_journey scroll_world init ''http://shop.test/'' ''sign up'' 2 False)) = [1, 2]"
  by (simp add: run_defs world_defs)

lemma scroll_run_twice:
  "map step (fst (run_journey scroll_world
      (self (snd (run_journey scroll_world init ''http://shop.test/'' ''sign up'' 2 False)))
      ''http://shop.test/'' ''sign up'' 2 False)) = [1, 2, 1, 2]"
  by (simp add: run_defs world_defs)

lemma finish_run:
  "run_journey finish_world init ''http://shop.test/'' ''sign up'' 3 True =
     ([\<lparr>path = ''step_1_120000.png'', step = 1, url = ''http://shop.test/'',
        decision = JDict [(''action'', JStr ''finish''), (''label'', JStr ''Sign in''),
          (''value'', JStr []), (''reason'', JStr ''next''), (''ux_observation'', JStr ''none'')],
        ux_analysis = JDict [(''page_type'', JStr ''homepage''), (''ux_issues'', JList []),
          (''positive_aspects'', JList []), (''actionable_suggestions'', JList []),
          (''conversion_score'', JInt 75), (''overall_assessment'', JStr ''fine'')]\<rparr>],
      \<lparr>self = \<lparr>screenshots = [\<lparr>path = ''step_1_120000.png'', step = 1, url = ''http://shop.test/'',
        decision = JDict [(''action'', JStr ''finish''), (''label'', JStr ''Sign in''),
          (''value'', JStr []), (''reason'', JStr ''next''), (''ux_observation'', JStr ''none'')],
        ux_analysis = JDict [(''page_type'', JStr ''homepage''), (''ux_issues'', JList []),
          (''positive_aspects'', JList []), (''actionable_suggestions'', JList []),
          (''conversion_score'', JInt 75), (''overall_assessment'', JStr ''fine'')]\<rparr>],
          action_history = []\<rparr>,
        trace = [EvLaunch, EvNewContext, EvNewPage, EvGotoCommit ''http://shop.test/'',
          EvScreenshot 1 ''step_1_120000.png'', EvDecide 1 ''step_1_120000.png'',
          EvScore 1 ''step_1_120000.png'' ''http://shop.test/'', EvClose]\<rparr>)"
  by (simp add: run_defs world_defs)

lemma click_run_trace:
  "trace (snd (run_journey click_world init ''http://shop.test/'' ''sign up'' 1 False)) =
     [EvLaunch, EvNewContext, EvNewPage, EvGotoCommit ''http://shop.test/'',
      EvScreenshot 1 ''step_1_120000.png'', EvDecide 1 ''step_1_120000.png'',
      EvScore 1 ''step_1_120000.png'' ''http://shop.test/'',
      EvClick 1 (GetByText (JStr ''Sign in'') False),
      EvClick 1 (GetByRole ''button'' (JStr ''Sign in'')),
      EvClick 1 (GetByRole ''link'' (JStr ''Sign in'')),
      EvClick 1 (LocatorText (JStr ''Sign in'')), EvClose]"
  by (simp add: run_defs world_defs)

lemma click_run_history:
  "action_history (self (snd (run_journey click_world init ''http://shop.test/'' ''sign up'' 1 False))) = []"
  by (simp add: run_defs world_defs)

lemma text_click_run_trace:
  "trace (snd (run_journey text_click_world init ''http://shop.test/'' ''sign up'' 1 False)) =
     [EvLaunch, EvNewContext, EvNewPage, EvGotoCommit ''http://shop.test/'',
      EvScreenshot 1 ''step_1_120000.png'', EvDecide 1 ''step_1_120000.png'',
      EvScore 1 ''step_1_120000.png'' ''http://shop.test/'',
      EvClick 1 (GetByText (JStr ''Sign in'') False), EvClose]"
  by (simp add: run_defs world_defs)

lemma late_shot_steps:
  "map step (fst (run_journey late_shot_world init ''http://shop.test/'' ''sign up'' 2 False)) = [2]"
  by (simp add: run_defs world_defs)

lemma no_context_run:
  "run_journey no_context_world init ''http://shop.test/'' ''sign up'' 3 True =
     ([], \<lparr>self = init, trace = [EvLaunch, EvNewContext]\<rparr>)"
  by (simp add: run_defs world_defs)

lemma blind_ux:
  "subscript (analyze_screenshot_ux blind_world ''step_1_120000.png'' ''http://shop.test/'')
     ''page_type'' = Inr (JStr ''unknown'')"
  by (simp add: run_defs world_defs)

lemma bare_finish_steps_callback:
  "map step (fst (run_journey bare_finish_world init ''http://shop.test/'' ''sign up'' 3 True))
     = [1, 2, 3]"
  by (simp add: run_defs world_defs)

lemma bare_finish_actions_callback:
  "map (\<lambda>r. subscript (decision r) ''action'')
     (fst (run_journey bare_finish_world init ''http://shop.test/'' ''sign up'' 3 True))
     = [Inr (JStr ''finish''), Inr (JStr ''finish''), Inr (JStr ''finish'')]"
  by (simp add: run_defs world_defs)

lemma bare_finish_steps_no_callback:
  "map step (fst (run_journey bare_finish_world init ''http://shop.test/'' ''sign up'' 3 False))
     = [1]"
  by (simp add: run_defs world_defs)

lemma blind_responses:
  "oracle_response blind_world p q = Inl ''cannot identify image file''"
  by (simp add: oracle_response_def world_defs demo_world_def)

lemma scroll_world_completes: "completes scroll_world ''http://shop.test/''"
  by (simp add: completes_def world_defs demo_world_def)

subsection \<open>Records added by the loop\<close>

lemma emit_self [simp]: "self (emit ev s) = self s"
  by (simp add: emit_def)

lemma emit_trace [simp]: "trace (emit ev s) = trace s @ [ev]"
  by (simp add: emit_def)

lemma click_loop_screenshots [simp]:
  "screenshots (self (snd (click_loop w k l strs s))) = screenshots (self s)"
  by (induction strs arbitrary: s) (auto simp: Let_def split: sum.splits)

lemma dispatch_state:
  "snd (dispatch w cb k dec s) =
     (case (if cb then progress_line dec else Inr ()) of
        Inl e \<Rightarrow> s
      | Inr _ \<Rightarrow>
          (case subscript dec ''action'' of
             Inl e \<Rightarrow> s
           | Inr action \<Rightarrow>
               if action = JStr ''finish'' then s
               else if action = JStr ''click'' then
                 (case subscript dec ''label'' of
                    Inl e \<Rightarrow> s
                  | Inr label \<Rightarrow> snd (click_loop w k label (click_strategies label) s))
               else if action = JStr ''scroll'' then emit (EvScroll k) s
               else s))"
  by (simp add: dispatch_def Let_def split: sum.splits prod.splits)

lemma dispatch_screenshots [simp]:
  "screenshots (self (snd (dispatch w cb k dec s))) = screenshots (self s)"
  by (simp add: dispatch_state split: sum.splits)

lemma step_body_screenshots:
  "screenshots (self (snd (step_body w cb goal k s))) =
     screenshots (self s) @
       (case screenshot w k of
          Inl e \<Rightarrow> []
        | Inr _ \<Rightarrow>
            [\<lparr>path = screenshot_name w k, step = k, url = page_url w k,
              decision = get_ai_decision w (screenshot_name w k) goal (action_history (self s)) k,
              ux_analysis = analyze_screenshot_ux w (screenshot_name w k) (page_url w k)\<rparr>])"
  by (simp add: step_body_def Let_def split: sum.splits)

lemma journey_step_state: "snd (journey_step w cb goal k s) = snd (step_body w cb goal k s)"
proof (cases "step_body w cb goal k s")
  case (Pair out s')
  then show ?thesis by (cases out) (simp_all add: journey_step_def)
qed

lemma journey_step_screenshots:
  "screenshots (self (snd (journey_step w cb goal k s))) =
     screenshots (self s) @
       (case screenshot w k of
          Inl e \<Rightarrow> []
        | Inr _ \<Rightarrow>
            [\<lparr>path = screenshot_name w k, step = k, url = page_url w k,
              decision = get_ai_decision w (screenshot_name w k) goal (action_history (self s)) k,
              ux_analysis = analyze_screenshot_ux w (screenshot_name w k) (page_url w k)\<rparr>])"
  by (simp only: journey_step_state step_body_screenshots)

lemma journey_step_added:
  "\<exists>new. screenshots (self (snd (journey_step w cb goal k s))) = screenshots (self s) @ new \<and>
         subseq (map step new) [k] \<and> (\<forall>r \<in> set new. recorded w goal r)"
proof (cases "screenshot w k")
  case (Inl e)
  then show ?thesis by (simp add: journey_step_screenshots)
next
  case (Inr u)
  then show ?thesis
    by (auto simp add: journey_step_screenshots recorded_def)
qed

lemma journey_loop_added:
  "\<exists>new. screenshots (self (journey_loop w cb goal ks s)) = screenshots (self s) @ new \<and>
         subseq (map step new) ks \<and> (\<forall>r \<in> set new. recorded w goal r)"
proof (induction ks arbitrary: s)
  case Nil
  then show ?case by simp
next
  case (Cons k ks)
  obtain f s' where st: "journey_step w cb goal k s = (f, s')"
    by (cases "journey_step w cb goal k s")
  from journey_step_added [of w cb goal k s] st
  obtain new1 where n1: "screenshots (self s') = screenshots (self s) @ new1"
    "subseq (map step new1) [k]" "\<forall>r \<in> set new1. recorded w goal r"
    by auto
  show ?case
  proof (cases f)
    case Break
    have "subseq (map step new1) (k # ks)"
      using list_emb_append_mono [OF n1(2) list_emb_Nil [of "(=)" ks]] by simp
    with Break st n1 show ?thesis by auto
  next
    case Next
    from Cons.IH [of s'] obtain new2 where n2:
      "screenshots (self (journey_loop w cb goal ks s')) = screenshots (self s') @ new2"
      "subseq (map step new2) ks" "\<forall>r \<in> set new2. recorded w goal r"
      by auto
    have "subseq (map step (new1 @ new2)) ([k] @ ks)"
      using n1(2) n2(2) by (simp only: map_append list_emb_append_mono)
    with Next st n1 n2 show ?thesis
      by (intro exI [of _ "new1 @ new2"]) auto
  qed
qed

subsection \<open>The whole run\<close>

lemma run_journey_completes:
  assumes "completes w start_url"
  shows "run_journey w me start_url goal max_steps cb =
           (screenshots (self (journey_loop w cb goal [1..max_steps] (entry_state w me start_url))),
            emit EvClose (journey_loop w cb goal [1..max_steps] (entry_state w me start_url)))"
  using assms
  by (auto simp add: completes_def run_journey_def journey_body_def steps_and_close_def
      close_and_return_def entry_state_def emit_def Let_def split: sum.splits)

lemma run_journey_aborts:
  assumes "\<not> completes w start_url"
  shows "fst (run_journey w me start_url goal max_steps cb) = []"
  using assms
  by (auto simp add: completes_def run_journey_def journey_body_def steps_and_close_def
      close_and_return_def Let_def split: sum.splits)

lemma entry_state_self [simp]: "self (entry_state w me start_url) = me"
  by (simp add: entry_state_def)

lemma run_journey_fresh_added:
  assumes "completes w start_url"
  shows "subseq (map step (fst (run_journey w init start_url goal max_steps cb))) [1..max_steps] \<and>
         (\<forall>r \<in> set (fst (run_journey w init start_url goal max_steps cb)). recorded w goal r)"
  using journey_loop_added [of w cb goal "[1..max_steps]" "entry_state w init start_url"]
  by (auto simp add: run_journey_completes [OF assms] init_def)

text \<open>
  Claim C1. For every \<open>max_steps \<ge> 1\<close>, a journey run on a freshly constructed
  instance returns a log of at most \<open>max_steps\<close> records: the loop runs over the
  indices \<open>1..max_steps\<close> and an iteration appends at most one record, so that the
  indices of the log are a subsequence of \<open>1..max_steps\<close>.
\<close>

theorem journey_length_le_max_steps:
  assumes "1 \<le> max_steps"
  shows "length (fst (run_journey w init start_url goal max_steps cb)) \<le> nat max_steps \<and>
         subseq (map step (fst (run_journey w init start_url goal max_steps cb))) [1..max_steps]"
proof -
  let ?js = "fst (run_journey w init start_url goal max_steps cb)"
  have sub: "subseq (map step ?js) [1..max_steps]"
  proof (cases "completes w start_url")
    case True
    from run_journey_fresh_added [OF True] show ?thesis by blast
  next
    case False
    then show ?thesis by (simp add: run_journey_aborts)
  qed
  then have "length (map step ?js) \<le> length [1..max_steps]"
    by (rule list_emb_length)
  with sub show ?thesis by simp
qed

text \<open>C1 at two steps of a model that always scrolls.\<close>

theorem journey_length_le_max_steps_witness:
  "(1::int) \<le> 2 \<and>
   length (fst (run_journey scroll_world init ''http://shop.test/'' ''sign up'' 2 False)) \<le> nat 2 \<and>
   subseq (map step (fst (run_journey scroll_world init ''http://shop.test/'' ''sign up'' 2 False)))
     [1..2]"
proof -
  have h: "(1::int) \<le> 2" by simp
  from journey_length_le_max_steps [OF h, of scroll_world "''http://shop.test/''" "''sign up''" False]
    h show ?thesis by blast
qed

subsection \<open>The trace of a step\<close>

lemma click_loop_trace:
  "trace (snd (click_loop w k l strs s)) = trace s @ map (EvClick k) (attempted w k strs)"
proof (induction strs arbitrary: s)
  case Nil
  then show ?case by (simp add: attempted_def)
next
  case (Cons st strs)
  show ?case
  proof (cases "click w k st")
    case (Inl e)
    with Cons.IH [of "emit (EvClick k st) s"] show ?thesis
      by (simp add: attempted_def Let_def)
  next
    case (Inr u)
    then show ?thesis by (simp add: attempted_def Let_def)
  qed
qed

lemma click_loop_clicked:
  "fst (click_loop w k l strs s) \<longleftrightarrow> (\<exists>st \<in> set strs. click w k st = Inr ())"
proof (induction strs arbitrary: s)
  case Nil
  then show ?case by simp
next
  case (Cons st strs)
  show ?case
  proof (cases "click w k st")
    case (Inl e)
    with Cons.IH [of "emit (EvClick k st) s"] show ?thesis
      by (simp add: Let_def)
  next
    case (Inr u)
    then show ?thesis by (simp add: Let_def)
  qed
qed

lemma click_loop_history:
  "action_history (self (snd (click_loop w k l strs s))) =
     action_history (self s) @
       (if \<exists>st \<in> set strs. click w k st = Inr () then [''Clicked: '' @ py_str w l] else [])"
proof (induction strs arbitrary: s)
  case Nil
  then show ?case by simp
next
  case (Cons st strs)
  show ?case
  proof (cases "click w k st")
    case (Inl e)
    with Cons.IH [of "emit (EvClick k st) s"] show ?thesis
      by (simp add: Let_def)
  next
    case (Inr u)
    then show ?thesis by (simp add: Let_def)
  qed
qed

lemma set_attempted: "set (attempted w k strs) \<subseteq> set strs"
  unfolding attempted_def
  using set_takeWhileD [of _ "\<lambda>st. isl (click w k st)" strs]
    set_dropWhileD [of _ "\<lambda>st. isl (click w k st)" strs] in_set_takeD [of _ 1]
  by fastforce

lemma dispatch_trace:
  "\<exists>acts. trace (snd (dispatch w cb k dec s)) = trace s @ acts \<and>
          (\<forall>ev \<in> set acts. action_step ev = Some k)"
  by (auto simp add: dispatch_state click_loop_trace split: sum.splits)

lemma step_body_trace:
  "\<exists>acts. trace (snd (step_body w cb goal k s)) =
            trace s @ EvScreenshot k (screenshot_name w k) #
              (case screenshot w k of
                 Inl e \<Rightarrow> []
               | Inr _ \<Rightarrow> EvDecide k (screenshot_name w k) #
                          EvScore k (screenshot_name w k) (page_url w k) # acts) \<and>
          (\<forall>ev \<in> set acts. action_step ev = Some k)"
proof (cases "screenshot w k")
  case (Inl e)
  then show ?thesis by (intro exI [of _ "[]"]) (simp add: step_body_def Let_def)
next
  case (Inr u)
  let ?dec = "get_ai_decision w (screenshot_name w k) goal (action_history (self s)) k"
  let ?s4 = "(emit (EvScore k (screenshot_name w k) (page_url w k))
               (emit (EvDecide k (screenshot_name w k))
                 (emit (EvScreenshot k (screenshot_name w k)) s)))
             \<lparr>self := (self s)\<lparr>screenshots := screenshots (self s) @
                [\<lparr>path = screenshot_name w k, step = k, url = page_url w k, decision = ?dec,
                  ux_analysis = analyze_screenshot_ux w (screenshot_name w k) (page_url w k)\<rparr>]\<rparr>\<rparr>"
  have eq: "step_body w cb goal k s = dispatch w cb k ?dec ?s4"
    using Inr by (simp add: step_body_def Let_def)
  from dispatch_trace [of w cb k ?dec ?s4] obtain acts where
    "trace (snd (dispatch w cb k ?dec ?s4)) = trace ?s4 @ acts"
    "\<forall>ev \<in> set acts. action_step ev = Some k" by blast
  with Inr eq show ?thesis by (intro exI [of _ acts]) simp
qed

lemma journey_step_trace:
  "\<exists>acts. trace (snd (journey_step w cb goal k s)) =
            trace s @ EvScreenshot k (screenshot_name w k) #
              (case screenshot w k of
                 Inl e \<Rightarrow> []
               | Inr _ \<Rightarrow> EvDecide k (screenshot_name w k) #
                          EvScore k (screenshot_name w k) (page_url w k) # acts) \<and>
          (\<forall>ev \<in> set acts. action_step ev = Some k)"
  by (simp only: journey_step_state step_body_trace)

lemma analysed_first_append: "analysed_first r tr \<Longrightarrow> analysed_first r (tr @ later)"
proof -
  assume "analysed_first r tr"
  then obtain pre post where
    "tr = pre @ [EvScreenshot (step r) (path r), EvDecide (step r) (path r),
                 EvScore (step r) (path r) (url r)] @ post"
    "\<forall>ev \<in> set pre. action_step ev \<noteq> Some (step r)"
    unfolding analysed_first_def by blast
  then have "tr @ later = pre @ [EvScreenshot (step r) (path r), EvDecide (step r) (path r),
                 EvScore (step r) (path r) (url r)] @ (post @ later) \<and>
             (\<forall>ev \<in> set pre. action_step ev \<noteq> Some (step r))"
    by simp
  then show ?thesis unfolding analysed_first_def by blast
qed

lemma journey_step_analysed:
  assumes old: "\<forall>r \<in> set (screenshots (self s)). analysed_first r (trace s)"
    and quiet: "\<forall>ev \<in> set (trace s). action_step ev \<noteq> Some k"
  shows "\<forall>r \<in> set (screenshots (self (snd (journey_step w cb goal k s)))).
           analysed_first r (trace (snd (journey_step w cb goal k s)))"
proof -
  let ?s' = "snd (journey_step w cb goal k s)"
  from journey_step_trace [of w cb goal k s] obtain acts where
    tr: "trace ?s' = trace s @ EvScreenshot k (screenshot_name w k) #
              (case screenshot w k of
                 Inl e \<Rightarrow> []
               | Inr _ \<Rightarrow> EvDecide k (screenshot_name w k) #
                          EvScore k (screenshot_name w k) (page_url w k) # acts)"
    by blast
  then obtain later where later: "trace ?s' = trace s @ later" by blast
  show ?thesis
  proof
    fix r assume r: "r \<in> set (screenshots (self ?s'))"
    show "analysed_first r (trace ?s')"
    proof (cases "r \<in> set (screenshots (self s))")
      case True
      with old have "analysed_first r (trace s)" by blast
      then show ?thesis unfolding later by (rule analysed_first_append)
    next
      case False
      with r obtain u where ok: "screenshot w k = Inr u"
        and r_def: "path r = screenshot_name w k" "step r = k" "url r = page_url w k"
        by (cases "screenshot w k") (auto simp add: journey_step_screenshots)
      from tr ok have "trace ?s' = trace s @
          [EvScreenshot (step r) (path r), EvDecide (step r) (path r),
           EvScore (step r) (path r) (url r)] @ acts"
        by (simp add: r_def)
      with quiet r_def(2) show ?thesis unfolding analysed_first_def by blast
    qed
  qed
qed

lemma journey_step_quiet:
  assumes "\<forall>ev \<in> set (trace s). action_step ev \<notin> Some ` set ks" and "k \<notin> set ks"
  shows "\<forall>ev \<in> set (trace (snd (journey_step w cb goal k s))). action_step ev \<notin> Some ` set ks"
proof -
  from journey_step_trace [of w cb goal k s] obtain acts where
    tr: "trace (snd (journey_step w cb goal k s)) =
            trace s @ EvScreenshot k (screenshot_name w k) #
              (case screenshot w k of
                 Inl e \<Rightarrow> []
               | Inr _ \<Rightarrow> EvDecide k (screenshot_name w k) #
                          EvScore k (screenshot_name w k) (page_url w k) # acts)"
    and acts: "\<forall>ev \<in> set acts. action_step ev = Some k"
    by blast
  show ?thesis
    unfolding tr using assms acts by (auto split: sum.splits)
qed

lemma journey_loop_analysed:
  assumes "distinct ks"
    and "\<forall>ev \<in> set (trace s). action_step ev \<notin> Some ` set ks"
    and "\<forall>r \<in> set (screenshots (self s)). analysed_first r (trace s)"
  shows "\<forall>r \<in> set (screenshots (self (journey_loop w cb goal ks s))).
           analysed_first r (trace (journey_loop w cb goal ks s))"
  using assms
proof (induction ks arbitrary: s)
  case Nil
  then show ?case by simp
next
  case (Cons k ks)
  obtain f s' where st: "journey_step w cb goal k s = (f, s')"
    by (cases "journey_step w cb goal k s")
  have quiet_k: "\<forall>ev \<in> set (trace s). action_step ev \<noteq> Some k"
    using Cons.prems(2) by auto
  have an: "\<forall>r \<in> set (screenshots (self s')). analysed_first r (trace s')"
    using journey_step_analysed [OF Cons.prems(3) quiet_k, of w cb goal] st by simp
  have "\<forall>ev \<in> set (trace s). action_step ev \<notin> Some ` set ks"
    using Cons.prems(2) by auto
  moreover have "k \<notin> set ks" using Cons.prems(1) by simp
  ultimately have q: "\<forall>ev \<in> set (trace s'). action_step ev \<notin> Some ` set ks"
    using journey_step_quiet [of s ks k w cb goal] st by simp
  show ?case
  proof (cases f)
    case Break
    with st an show ?thesis by simp
  next
    case Next
    have "distinct ks" using Cons.prems(1) by simp
    from Cons.IH [OF this q an] Next st show ?thesis by simp
  qed
qed

subsection \<open>Analyses and their screenshot\<close>

lemma entry_state_quiet: "\<forall>ev \<in> set (trace (entry_state w me start_url)). action_step ev = None"
  by (simp add: entry_state_def split: sum.splits)

text \<open>
  Claim C4. For every record of a journey returned on a fresh instance, the analysis
  and the decision stored in it were computed from the path stored in it, and the
  trace holds, in this order and next to each other, the screenshot of that path, the
  decision call on it and the scoring call on it, with no click or scroll of that step
  before them.
\<close>

theorem records_analysed_from_their_screenshot:
  assumes "r \<in> set (fst (run_journey w init start_url goal max_steps cb))"
  shows "ux_analysis r = analyze_screenshot_ux w (path r) (url r) \<and>
         (\<exists>history. decision r = get_ai_decision w (path r) goal history (step r)) \<and>
         analysed_first r (trace (snd (run_journey w init start_url goal max_steps cb)))"
proof (cases "completes w start_url")
  case False
  with assms show ?thesis by (simp add: run_journey_aborts)
next
  case True
  let ?s = "entry_state w init start_url"
  let ?t = "journey_loop w cb goal [1..max_steps] ?s"
  have run: "run_journey w init start_url goal max_steps cb = (screenshots (self ?t), emit EvClose ?t)"
    by (rule run_journey_completes [OF True])
  from run_journey_fresh_added [OF True] assms have "recorded w goal r" by blast
  then have vals: "ux_analysis r = analyze_screenshot_ux w (path r) (url r)"
    "\<exists>history. decision r = get_ai_decision w (path r) goal history (step r)"
    unfolding recorded_def by blast+
  have "\<forall>ev \<in> set (trace ?s). action_step ev \<notin> Some ` set [1..max_steps]"
    using entry_state_quiet [of w init start_url] by auto
  moreover have "\<forall>r \<in> set (screenshots (self ?s)). analysed_first r (trace ?s)"
    by (simp add: init_def)
  ultimately have "\<forall>r \<in> set (screenshots (self ?t)). analysed_first r (trace ?t)"
    by (intro journey_loop_analysed) simp_all
  with assms have "analysed_first r (trace ?t)" by (simp add: run)
  then have "analysed_first r (trace ?t @ [EvClose])" by (rule analysed_first_append)
  with vals show ?thesis by (simp add: run)
qed

text \<open>C4 for the first record of a two-step journey.\<close>

theorem records_analysed_from_their_screenshot_witness:
  "hd (fst (run_journey scroll_world init ''http://shop.test/'' ''sign up'' 2 False))
     \<in> set (fst (run_journey scroll_world init ''http://shop.test/'' ''sign up'' 2 False)) \<and>
   ux_analysis (hd (fst (run_journey scroll_world init ''http://shop.test/'' ''sign up'' 2 False)))
     = analyze_screenshot_ux scroll_world
         (path (hd (fst (run_journey scroll_world init ''http://shop.test/'' ''sign up'' 2 False))))
         (url (hd (fst (run_journey scroll_world init ''http://shop.test/'' ''sign up'' 2 False)))) \<and>
   analysed_first (hd (fst (run_journey scroll_world init ''http://shop.test/'' ''sign up'' 2 False)))
     (trace (snd (run_journey scroll_world init ''http://shop.test/'' ''sign up'' 2 False)))"
proof -
  let ?js = "fst (run_journey scroll_world init ''http://shop.test/'' ''sign up'' 2 False)"
  have "?js \<noteq> []" using scroll_run_steps by auto
  then have h: "hd ?js \<in> set ?js" by (rule hd_in_set)
  from records_analysed_from_their_screenshot [OF h] h show ?thesis by blast
qed

lemma dispatch_halts: "halts cb dec \<Longrightarrow> dispatch w cb k dec s = (Inr Break, s)"
  by (simp add: halts_def dispatch_def)

lemma dispatch_Break: "fst (dispatch w cb k dec s) = Inr Break \<longleftrightarrow> halts cb dec"
  by (auto simp add: halts_def dispatch_def Let_def split: sum.splits if_splits prod.splits)

lemma journey_step_Break:
  "fst (journey_step w cb goal k s) = Break \<longleftrightarrow>
     screenshot w k = Inr () \<and>
     halts cb (get_ai_decision w (screenshot_name w k) goal (action_history (self s)) k)"
proof (cases "screenshot w k")
  case (Inl e)
  then show ?thesis by (simp add: journey_step_def step_body_def Let_def)
next
  case (Inr u)
  let ?dec = "get_ai_decision w (screenshot_name w k) goal (action_history (self s)) k"
  let ?s4 = "(emit (EvScore k (screenshot_name w k) (page_url w k))
               (emit (EvDecide k (screenshot_name w k))
                 (emit (EvScreenshot k (screenshot_name w k)) s)))
             \<lparr>self := (self s)\<lparr>screenshots := screenshots (self s) @
                [\<lparr>path = screenshot_name w k, step = k, url = page_url w k, decision = ?dec,
                  ux_analysis = analyze_screenshot_ux w (screenshot_name w k) (page_url w k)\<rparr>]\<rparr>\<rparr>"
  have eq: "step_body w cb goal k s = dispatch w cb k ?dec ?s4"
    using Inr by (simp add: step_body_def Let_def)
  have "fst (journey_step w cb goal k s) = Break \<longleftrightarrow> fst (dispatch w cb k ?dec ?s4) = Inr Break"
    unfolding journey_step_def eq
    by (cases "dispatch w cb k ?dec ?s4") (auto split: sum.splits)
  with Inr show ?thesis by (simp add: dispatch_Break)
qed

lemma journey_step_Break_trace:
  assumes "fst (journey_step w cb goal k s) = Break"
  shows "trace (snd (journey_step w cb goal k s)) =
           trace s @ [EvScreenshot k (screenshot_name w k), EvDecide k (screenshot_name w k),
                      EvScore k (screenshot_name w k) (page_url w k)]"
proof -
  from assms have ok: "screenshot w k = Inr ()"
    and h: "halts cb (get_ai_decision w (screenshot_name w k) goal (action_history (self s)) k)"
    by (simp_all add: journey_step_Break)
  show ?thesis
    by (simp add: journey_step_state step_body_def Let_def ok dispatch_halts [OF h])
qed

subsection \<open>The finish decision\<close>

lemma journey_loop_halts_last:
  assumes "length (screenshots (self s)) \<le> i"
    and "i < length (screenshots (self (journey_loop w cb goal ks s)))"
    and "halts cb (decision (screenshots (self (journey_loop w cb goal ks s)) ! i))"
  shows "Suc i = length (screenshots (self (journey_loop w cb goal ks s))) \<and>
         (\<exists>pre. trace (journey_loop w cb goal ks s) =
            pre @ [EvScore (step (screenshots (self (journey_loop w cb goal ks s)) ! i))
                     (path (screenshots (self (journey_loop w cb goal ks s)) ! i))
                     (url (screenshots (self (journey_loop w cb goal ks s)) ! i))])"
  using assms
proof (induction ks arbitrary: s)
  case Nil
  then show ?case by simp
next
  case (Cons k ks)
  obtain f s' where st: "journey_step w cb goal k s = (f, s')"
    by (cases "journey_step w cb goal k s")
  let ?dec = "get_ai_decision w (screenshot_name w k) goal (action_history (self s)) k"
  let ?r = "\<lparr>path = screenshot_name w k, step = k, url = page_url w k, decision = ?dec,
             ux_analysis = analyze_screenshot_ux w (screenshot_name w k) (page_url w k)\<rparr>"
  have shots: "screenshots (self s') =
      screenshots (self s) @ (case screenshot w k of Inl e \<Rightarrow> [] | Inr _ \<Rightarrow> [?r])"
    using journey_step_screenshots [of w cb goal k s] st by simp
  show ?case
  proof (cases f)
    case Break
    then have t: "journey_loop w cb goal (k # ks) s = s'" using st by simp
    from Break st have br: "fst (journey_step w cb goal k s) = Break" by simp
    then have ok: "screenshot w k = Inr ()" by (simp add: journey_step_Break)
    from Cons.prems(1,2) have i: "i = length (screenshots (self s))"
      unfolding t shots ok by simp
    have tr: "trace s' = trace s @ [EvScreenshot k (screenshot_name w k),
        EvDecide k (screenshot_name w k), EvScore k (screenshot_name w k) (page_url w k)]"
      using journey_step_Break_trace [OF br] st by simp
    show ?thesis unfolding t shots ok tr i by simp
  next
    case Next
    then have t: "journey_loop w cb goal (k # ks) s = journey_loop w cb goal ks s'"
      using st by simp
    show ?thesis
    proof (cases "length (screenshots (self s')) \<le> i")
      case True
      from Cons.IH [OF True] Cons.prems(2,3) show ?thesis unfolding t by simp
    next
      case False
      from journey_loop_added [of w cb goal ks s'] obtain new where
        new: "screenshots (self (journey_loop w cb goal ks s')) = screenshots (self s') @ new"
        by blast
      from False Cons.prems(1) obtain u where ok: "screenshot w k = Inr u"
        and i: "i = length (screenshots (self s))"
        unfolding shots by (cases "screenshot w k") auto
      have "screenshots (self (journey_loop w cb goal ks s')) ! i = ?r"
        unfolding new shots i using ok by (simp add: nth_append)
      with Cons.prems(3) have "halts cb ?dec" unfolding t by simp
      with ok have "fst (journey_step w cb goal k s) = Break"
        by (simp add: journey_step_Break)
      with st Next show ?thesis by simp
    qed
  qed
qed

text \<open>
  When the step of a \<open>finish\<close> decision reaches the test of the action, its record
  is the last one and only \<open>browser.close()\<close> follows its scoring call. It reaches the
  test when no callback was passed, or when the progress message could be built.
\<close>

lemma finish_reached_is_last:
  assumes "i < length (fst (run_journey w init start_url goal max_steps cb))"
    and "subscript (decision (fst (run_journey w init start_url goal max_steps cb) ! i)) ''action''
           = Inr (JStr ''finish'')"
    and "cb \<longrightarrow> progress_line (decision (fst (run_journey w init start_url goal max_steps cb) ! i))
           = Inr ()"
  shows "Suc i = length (fst (run_journey w init start_url goal max_steps cb)) \<and>
         (\<exists>pre. trace (snd (run_journey w init start_url goal max_steps cb)) =
            pre @ [EvScore (step (fst (run_journey w init start_url goal max_steps cb) ! i))
                     (path (fst (run_journey w init start_url goal max_steps cb) ! i))
                     (url (fst (run_journey w init start_url goal max_steps cb) ! i)),
                   EvClose])"
proof (cases "completes w start_url")
  case False
  with assms(1) show ?thesis by (simp add: run_journey_aborts)
next
  case True
  let ?s = "entry_state w init start_url"
  let ?t = "journey_loop w cb goal [1..max_steps] ?s"
  have run: "run_journey w init start_url goal max_steps cb = (screenshots (self ?t), emit EvClose ?t)"
    by (rule run_journey_completes [OF True])
  have "length (screenshots (self ?s)) \<le> i" by (simp add: init_def)
  moreover have "i < length (screenshots (self ?t))" using assms(1) by (simp add: run)
  moreover have "halts cb (decision (screenshots (self ?t) ! i))"
    using assms(2,3) unfolding run halts_def by simp
  ultimately have "Suc i = length (screenshots (self ?t)) \<and>
         (\<exists>pre. trace ?t =
            pre @ [EvScore (step (screenshots (self ?t) ! i)) (path (screenshots (self ?t) ! i))
                     (url (screenshots (self ?t) ! i))])"
    by (rule journey_loop_halts_last)
  then show ?thesis by (auto simp add: run)
qed

text \<open>
  Claim C5 says that a record whose decision has action \<open>finish\<close> is always the last
  one. With a callback, the progress message \<open>decision['label'][:40]\<close> is built
  before the action is tested; a reply \<open>{"action": "finish"}\<close> without a label
  raises there, the handler of the step continues, and every later step does the same:
  three steps give three records, all with action \<open>finish\<close>. Without a callback the
  same replies end the journey at step 1.
\<close>

theorem finish_missed_when_label_absent:
  "map step (fst (run_journey bare_finish_world init ''http://shop.test/'' ''sign up'' 3 True))
     = [1, 2, 3] \<and>
   map (\<lambda>r. subscript (decision r) ''action'')
     (fst (run_journey bare_finish_world init ''http://shop.test/'' ''sign up'' 3 True))
     = [Inr (JStr ''finish''), Inr (JStr ''finish''), Inr (JStr ''finish'')] \<and>
   map step (fst (run_journey bare_finish_world init ''http://shop.test/'' ''sign up'' 3 False))
     = [1]"
  by (simp only: bare_finish_steps_callback bare_finish_actions_callback
      bare_finish_steps_no_callback simp_thms)

subsection \<open>Oracle failures and click dispatch\<close>

lemma get_ai_decision_response:
  "get_ai_decision w p goal history k =
     (case oracle_response w p (DecisionPrompt goal k (last3 history)) of
        Inl e \<Rightarrow> decision_default e | Inr v \<Rightarrow> v)"
  by (simp add: get_ai_decision_def oracle_response_def split: sum.splits)

lemma analyze_screenshot_ux_response:
  "analyze_screenshot_ux w p c =
     (case oracle_response w p (UxPrompt c) of Inl e \<Rightarrow> ux_default e | Inr v \<Rightarrow> v)"
  by (simp add: analyze_screenshot_ux_def oracle_response_def split: sum.splits)

lemma decision_default_halts: "halts cb (decision_default e)"
  by (simp add: halts_def decision_default_def progress_line_def)

text \<open>
  Claim C3. An exception inside \<open>get_ai_decision\<close> is replaced by a decision with
  action \<open>finish\<close> and the reason \<open>AI error: ...\<close>; an exception inside
  \<open>analyze_screenshot_ux\<close> by an analysis with \<open>conversion_score\<close> 0 and the
  assessment \<open>Analysis error: ...\<close>. Neither reaches the loop: a step whose
  screenshot succeeded stores its record whatever the two calls did, when the
  decision call failed the step ends the loop through the \<open>finish\<close> branch, and
  whether the run returns its log depends on the browser calls alone.
\<close>

theorem oracle_failure_degrades:
  "(oracle_response w p (DecisionPrompt goal k (last3 history)) = Inl e \<longrightarrow>
      get_ai_decision w p goal history k = decision_default e \<and>
      subscript (get_ai_decision w p goal history k) ''action'' = Inr (JStr ''finish'') \<and>
      subscript (get_ai_decision w p goal history k) ''reason''
        = Inr (JStr (''AI error: '' @ take 50 e))) \<and>
   (oracle_response w p (UxPrompt c) = Inl e' \<longrightarrow>
      analyze_screenshot_ux w p c = ux_default e' \<and>
      subscript (analyze_screenshot_ux w p c) ''conversion_score'' = Inr (JInt 0) \<and>
      subscript (analyze_screenshot_ux w p c) ''overall_assessment''
        = Inr (JStr (''Analysis error: '' @ take 50 e'))) \<and>
   (screenshot w k = Inr () \<longrightarrow>
      screenshots (self (snd (journey_step w cb goal k s))) =
        screenshots (self s) @
          [\<lparr>path = screenshot_name w k, step = k, url = page_url w k,
            decision = get_ai_decision w (screenshot_name w k) goal (action_history (self s)) k,
            ux_analysis = analyze_screenshot_ux w (screenshot_name w k) (page_url w k)\<rparr>]) \<and>
   (screenshot w k = Inr () \<and>
    oracle_response w (screenshot_name w k)
      (DecisionPrompt goal k (last3 (action_history (self s)))) = Inl e'' \<longrightarrow>
      fst (journey_step w cb goal k s) = Break) \<and>
   (completes w start_url \<longrightarrow>
      fst (run_journey w me start_url goal max_steps cb) =
        screenshots (self (snd (run_journey w me start_url goal max_steps cb))))"
proof (intro conjI impI)
  assume "oracle_response w p (DecisionPrompt goal k (last3 history)) = Inl e"
  then have d: "get_ai_decision w p goal history k = decision_default e"
    by (simp add: get_ai_decision_response)
  show "get_ai_decision w p goal history k = decision_default e" by (rule d)
  show "subscript (get_ai_decision w p goal history k) ''action'' = Inr (JStr ''finish'')"
    unfolding d by (simp add: decision_default_def)
  show "subscript (get_ai_decision w p goal history k) ''reason''
        = Inr (JStr (''AI error: '' @ take 50 e))"
    unfolding d by (simp add: decision_default_def)
next
  assume "oracle_response w p (UxPrompt c) = Inl e'"
  then have u: "analyze_screenshot_ux w p c = ux_default e'"
    by (simp add: analyze_screenshot_ux_response)
  show "analyze_screenshot_ux w p c = ux_default e'" by (rule u)
  show "subscript (analyze_screenshot_ux w p c) ''conversion_score'' = Inr (JInt 0)"
    unfolding u by (simp add: ux_default_def)
  show "subscript (analyze_screenshot_ux w p c) ''overall_assessment''
        = Inr (JStr (''Analysis error: '' @ take 50 e'))"
    unfolding u by (simp add: ux_default_def)
next
  assume "screenshot w k = Inr ()"
  then show "screenshots (self (snd (journey_step w cb goal k s))) =
        screenshots (self s) @
          [\<lparr>path = screenshot_name w k, step = k, url = page_url w k,
            decision = get_ai_decision w (screenshot_name w k) goal (action_history (self s)) k,
            ux_analysis = analyze_screenshot_ux w (screenshot_name w k) (page_url w k)\<rparr>]"
    by (simp add: journey_step_screenshots)
next
  assume a: "screenshot w k = Inr () \<and>
    oracle_response w (screenshot_name w k)
      (DecisionPrompt goal k (last3 (action_history (self s)))) = Inl e''"
  then have "get_ai_decision w (screenshot_name w k) goal (action_history (self s)) k
      = decision_default e''"
    by (simp add: get_ai_decision_response)
  with a show "fst (journey_step w cb goal k s) = Break"
    by (simp add: journey_step_Break decision_default_halts)
next
  assume "completes w start_url"
  then show "fst (run_journey w me start_url goal max_steps cb) =
        screenshots (self (snd (run_journey w me start_url goal max_steps cb)))"
    by (simp add: run_journey_completes)
qed

text \<open>C3 in a world where no screenshot file can be opened, so that both calls fail.\<close>

theorem oracle_failure_degrades_witness:
  "oracle_response blind_world ''step_1_120000.png'' (DecisionPrompt ''sign up'' 1 (last3 []))
     = Inl ''cannot identify image file'' \<and>
   oracle_response blind_world ''step_1_120000.png'' (UxPrompt ''http://shop.test/'')
     = Inl ''cannot identify image file'' \<and>
   screenshot blind_world 1 = Inr () \<and>
   oracle_response blind_world (screenshot_name blind_world 1)
      (DecisionPrompt ''sign up'' 1
        (last3 (action_history (self (entry_state blind_world init ''http://shop.test/'')))))
     = Inl ''cannot identify image file'' \<and>
   subscript (get_ai_decision blind_world ''step_1_120000.png'' ''sign up'' [] 1) ''action''
     = Inr (JStr ''finish'') \<and>
   subscript (get_ai_decision blind_world ''step_1_120000.png'' ''sign up'' [] 1) ''reason''
     = Inr (JStr (''AI error: '' @ take 50 ''cannot identify image file'')) \<and>
   subscript (analyze_screenshot_ux blind_world ''step_1_120000.png'' ''http://shop.test/'')
     ''conversion_score'' = Inr (JInt 0) \<and>
   subscript (analyze_screenshot_ux blind_world ''step_1_120000.png'' ''http://shop.test/'')
     ''overall_assessment''
     = Inr (JStr (''Analysis error: '' @ take 50 ''cannot identify image file'')) \<and>
   fst (journey_step blind_world True ''sign up'' 1
          (entry_state blind_world init ''http://shop.test/'')) = Break \<and>
   completes blind_world ''http://shop.test/'' \<and>
   fst (run_journey blind_world init ''http://shop.test/'' ''sign up'' 3 True) =
     screenshots (self (snd (run_journey blind_world init ''http://shop.test/'' ''sign up'' 3 True)))"
proof -
  have h5: "completes blind_world ''http://shop.test/''"
    by (simp add: completes_def world_defs demo_world_def)
  have h1: "oracle_response blind_world ''step_1_120000.png''
      (DecisionPrompt ''sign up'' 1 (last3 [])) = Inl ''cannot identify image file''"
    by (rule blind_responses)
  have h2: "oracle_response blind_world ''step_1_120000.png'' (UxPrompt ''http://shop.test/'')
      = Inl ''cannot identify image file''"
    by (rule blind_responses)
  have h3: "screenshot blind_world 1 = Inr ()"
    by (simp add: world_defs demo_world_def)
  have h4: "oracle_response blind_world (screenshot_name blind_world 1)
      (DecisionPrompt ''sign up'' 1
        (last3 (action_history (self (entry_state blind_world init ''http://shop.test/'')))))
     = Inl ''cannot identify image file''"
    by (rule blind_responses)
  note t = oracle_failure_degrades [where w = blind_world and p = "''step_1_120000.png''"
      and goal = "''sign up''" and k = 1 and history = "[]"
      and e = "''cannot identify image file''" and c = "''http://shop.test/''"
      and e' = "''cannot identify image file''" and e'' = "''cannot identify image file''"
      and cb = True and s = "entry_state blind_world init ''http://shop.test/''"
      and start_url = "''http://shop.test/''" and me = init and max_steps = 3]
  from t h1 h2 h3 h4 h5 show ?thesis by blast
qed

text \<open>
  Claim C9 says every analysis has a \<open>page_type\<close> among homepage, signup, login and
  other. The degraded default has \<open>unknown\<close>.
\<close>

theorem degraded_page_type_outside_enum:
  "subscript (analyze_screenshot_ux blind_world ''step_1_120000.png'' ''http://shop.test/'')
     ''page_type'' = Inr (JStr ''unknown'') \<and>
   JStr ''unknown'' \<notin> set page_type_enum"
  by (simp add: blind_ux page_type_enum_def)

text \<open>
  Claim C9, amended. An analysis produced by \<open>analyze_screenshot_ux\<close> is either the
  parsed response of the model, returned as it is, or the degraded default, whose
  \<open>page_type\<close> is \<open>unknown\<close>, a value outside homepage, signup, login and other.
\<close>

theorem ux_page_type_unknown_on_failure:
  "analyze_screenshot_ux w p c =
     (case oracle_response w p (UxPrompt c) of Inl e \<Rightarrow> ux_default e | Inr v \<Rightarrow> v) \<and>
   (\<forall>e. subscript (ux_default e) ''page_type'' = Inr (JStr ''unknown'')) \<and>
   JStr ''unknown'' \<notin> set page_type_enum"
  by (simp add: analyze_screenshot_ux_response ux_default_def page_type_enum_def)

text \<open>C9 in the world where no screenshot file can be opened.\<close>

theorem ux_page_type_unknown_on_failure_witness:
  "analyze_screenshot_ux blind_world ''step_1_120000.png'' ''http://shop.test/'' =
     ux_default ''cannot identify image file''"
  using ux_page_type_unknown_on_failure [of blind_world "''step_1_120000.png''" "''http://shop.test/''"]
  by (simp add: blind_responses)

lemma click_loop_all_fail:
  "\<forall>st \<in> set strs. isl (click w k st) \<Longrightarrow>
     click_loop w k l strs s = (False, s\<lparr>trace := trace s @ map (EvClick k) strs\<rparr>)"
proof (induction strs arbitrary: s)
  case Nil
  then show ?case by simp
next
  case (Cons st strs)
  then obtain e where "click w k st = Inl e" by (cases "click w k st") auto
  with Cons show ?case by (simp add: Let_def emit_def)
qed

lemma slice_to_any: "slice_to m v = Inr x \<Longrightarrow> \<exists>y. slice_to n v = Inr y"
  by (cases v) simp_all

lemma progress_line_label:
  assumes "progress_line dec = Inr ()" and "subscript dec ''label'' = Inr l"
  shows "\<exists>y. slice_to n l = Inr y"
proof -
  from assms obtain x where "slice_to 40 l = Inr x"
    by (auto simp add: progress_line_def split: sum.splits)
  then show ?thesis by (rule slice_to_any)
qed

lemma dispatch_click:
  assumes "subscript dec ''action'' = Inr (JStr ''click'')"
    and "subscript dec ''label'' = Inr l"
    and "cb \<longrightarrow> progress_line dec = Inr ()"
  shows "dispatch w cb k dec s = (Inr Next, snd (click_loop w k l (click_strategies l) s))"
proof (cases cb)
  case False
  with assms show ?thesis by (simp add: dispatch_def split: prod.splits)
next
  case True
  with assms(3) have pl: "progress_line dec = Inr ()" by simp
  from progress_line_label [OF pl assms(2)] obtain y where "slice_to 30 l = Inr y" by blast
  with assms(1,2) pl show ?thesis by (simp add: dispatch_def split: prod.splits)
qed

text \<open>
  Claim C6 names the first strategy an exact text match. The first lambda is
  \<open>get_by_text(label, exact=False)\<close>: where only that locator resolves, the click
  succeeds at the first attempt, and no exact match is ever tried.
\<close>

theorem click_first_strategy_not_exact:
  "trace (snd (run_journey text_click_world init ''http://shop.test/'' ''sign up'' 1 False)) =
     [EvLaunch, EvNewContext, EvNewPage, EvGotoCommit ''http://shop.test/'',
      EvScreenshot 1 ''step_1_120000.png'', EvDecide 1 ''step_1_120000.png'',
      EvScore 1 ''step_1_120000.png'' ''http://shop.test/'',
      EvClick 1 (GetByText (JStr ''Sign in'') False), EvClose] \<and>
   hd (click_strategies (JStr ''Sign in'')) \<noteq> GetByText (JStr ''Sign in'') True"
  by (simp add: text_click_run_trace click_strategies_def)

text \<open>
  Claim C6, amended. A click dispatch tries up to four locators in the order:
  \<open>get_by_text(label, exact=False)\<close>, role \<open>button\<close> by name, role \<open>link\<close> by name,
  \<open>locator("text=" + label)\<close>. The locators attempted are those that fail followed by
  the first one that succeeds, and \<open>clicked\<close> is set exactly when one succeeds. If all
  four fail, only the trace changes, and in every case the step goes on to the next
  index. (The 5 second timeout of an attempt is part of the outcome of \<open>click\<close>.)
\<close>

theorem click_tries_strategies_in_order:
  "click_strategies l =
     [GetByText l False, GetByRole ''button'' l, GetByRole ''link'' l, LocatorText l] \<and>
   trace (snd (click_loop w k l (click_strategies l) s)) =
     trace s @ map (EvClick k) (attempted w k (click_strategies l)) \<and>
   (fst (click_loop w k l (click_strategies l) s) \<longleftrightarrow>
      (\<exists>st \<in> set (click_strategies l). click w k st = Inr ())) \<and>
   ((\<forall>st \<in> set (click_strategies l). isl (click w k st)) \<longrightarrow>
      click_loop w k l (click_strategies l) s =
        (False, s\<lparr>trace := trace s @ map (EvClick k) (click_strategies l)\<rparr>)) \<and>
   (subscript dec ''action'' = Inr (JStr ''click'') \<and> subscript dec ''label'' = Inr l \<and>
    (cb \<longrightarrow> progress_line dec = Inr ()) \<longrightarrow>
      dispatch w cb k dec s = (Inr Next, snd (click_loop w k l (click_strategies l) s)))"
proof (intro conjI impI)
  show "click_strategies l =
     [GetByText l False, GetByRole ''button'' l, GetByRole ''link'' l, LocatorText l]"
    by (simp add: click_strategies_def)
  show "trace (snd (click_loop w k l (click_strategies l) s)) =
     trace s @ map (EvClick k) (attempted w k (click_strategies l))"
    by (rule click_loop_trace)
  show "fst (click_loop w k l (click_strategies l) s) \<longleftrightarrow>
      (\<exists>st \<in> set (click_strategies l). click w k st = Inr ())"
    by (rule click_loop_clicked)
next
  assume "\<forall>st \<in> set (click_strategies l). isl (click w k st)"
  then show "click_loop w k l (click_strategies l) s =
        (False, s\<lparr>trace := trace s @ map (EvClick k) (click_strategies l)\<rparr>)"
    by (rule click_loop_all_fail)
next
  assume "subscript dec ''action'' = Inr (JStr ''click'') \<and> subscript dec ''label'' = Inr l \<and>
    (cb \<longrightarrow> progress_line dec = Inr ())"
  then show "dispatch w cb k dec s = (Inr Next, snd (click_loop w k l (click_strategies l) s))"
    by (intro dispatch_click) simp_all
qed

text \<open>
  C6 where every click times out, and where the \<open>link\<close> locator is the first to
  succeed.
\<close>

theorem click_tries_strategies_in_order_witness:
  "isl (click click_world 1 (GetByText (JStr ''Sign in'') False)) \<and>
   isl (click click_world 1 (GetByRole ''button'' (JStr ''Sign in''))) \<and>
   isl (click click_world 1 (GetByRole ''link'' (JStr ''Sign in''))) \<and>
   isl (click click_world 1 (LocatorText (JStr ''Sign in''))) \<and>
   click_loop click_world 1 (JStr ''Sign in'') (click_strategies (JStr ''Sign in''))
       (entry_state click_world init ''http://shop.test/'') =
     (False, (entry_state click_world init ''http://shop.test/'')
        \<lparr>trace := trace (entry_state click_world init ''http://shop.test/'') @
           map (EvClick 1) (click_strategies (JStr ''Sign in''))\<rparr>) \<and>
   subscript (demo_decision ''click'') ''action'' = Inr (JStr ''click'') \<and>
   subscript (demo_decision ''click'') ''label'' = Inr (JStr ''Sign in'') \<and>
   progress_line (demo_decision ''click'') = Inr () \<and>
   fst (dispatch click_world True 1 (demo_decision ''click'')
          (entry_state click_world init ''http://shop.test/'')) = Inr Next \<and>
   trace (snd (click_loop link_click_world 1 (JStr ''Sign in'')
        (click_strategies (JStr ''Sign in'')) (entry_state link_click_world init ''http://shop.test/''))) =
      trace (entry_state link_click_world init ''http://shop.test/'') @
        [EvClick 1 (GetByText (JStr ''Sign in'') False),
         EvClick 1 (GetByRole ''button'' (JStr ''Sign in'')),
         EvClick 1 (GetByRole ''link'' (JStr ''Sign in''))]"
proof -
  have h1: "\<forall>st \<in> set (click_strategies (JStr ''Sign in'')). isl (click click_world 1 st)"
    by (simp add: click_strategies_def world_defs demo_world_def)
  have h2: "subscript (demo_decision ''click'') ''action'' = Inr (JStr ''click'')"
    by (simp add: demo_decision_def)
  have h3: "subscript (demo_decision ''click'') ''label'' = Inr (JStr ''Sign in'')"
    by (simp add: demo_decision_def)
  have h4: "progress_line (demo_decision ''click'') = Inr ()"
    by (simp add: demo_decision_def progress_line_def)
  note t = click_tries_strategies_in_order [where l = "JStr ''Sign in''" and w = click_world
      and k = 1 and s = "entry_state click_world init ''http://shop.test/''"
      and dec = "demo_decision ''click''" and cb = True]
  from t h1 have c1: "click_loop click_world 1 (JStr ''Sign in'') (click_strategies (JStr ''Sign in''))
       (entry_state click_world init ''http://shop.test/'') =
     (False, (entry_state click_world init ''http://shop.test/'')
        \<lparr>trace := trace (entry_state click_world init ''http://shop.test/'') @
           map (EvClick 1) (click_strategies (JStr ''Sign in''))\<rparr>)"
    by blast
  from t h2 h3 h4 have "dispatch click_world True 1 (demo_decision ''click'')
          (entry_state click_world init ''http://shop.test/'') =
      (Inr Next, snd (click_loop click_world 1 (JStr ''Sign in'')
         (click_strategies (JStr ''Sign in'')) (entry_state click_world init ''http://shop.test/'')))"
    by blast
  then have c2: "fst (dispatch click_world True 1 (demo_decision ''click'')
          (entry_state click_world init ''http://shop.test/'')) = Inr Next"
    by simp
  have att: "attempted link_click_world 1 (click_strategies (JStr ''Sign in'')) =
      [GetByText (JStr ''Sign in'') False, GetByRole ''button'' (JStr ''Sign in''),
       GetByRole ''link'' (JStr ''Sign in'')]"
    by (simp add: attempted_def click_strategies_def world_defs demo_world_def)
  note t' = click_tries_strategies_in_order [where l = "JStr ''Sign in''" and w = link_click_world
      and k = 1 and s = "entry_state link_click_world init ''http://shop.test/''"
      and dec = "demo_decision ''click''" and cb = True]
  from t' have "trace (snd (click_loop link_click_world 1 (JStr ''Sign in'')
        (click_strategies (JStr ''Sign in'')) (entry_state link_click_world init ''http://shop.test/''))) =
      trace (entry_state link_click_world init ''http://shop.test/'') @
        map (EvClick 1) (attempted link_click_world 1 (click_strategies (JStr ''Sign in'')))"
    by blast
  then have c3: "trace (snd (click_loop link_click_world 1 (JStr ''Sign in'')
        (click_strategies (JStr ''Sign in'')) (entry_state link_click_world init ''http://shop.test/''))) =
      trace (entry_state link_click_world init ''http://shop.test/'') @
        [EvClick 1 (GetByText (JStr ''Sign in'') False),
         EvClick 1 (GetByRole ''button'' (JStr ''Sign in'')),
         EvClick 1 (GetByRole ''link'' (JStr ''Sign in''))]"
    unfolding att by simp
  have each: "isl (click click_world 1 (GetByText (JStr ''Sign in'') False))"
    "isl (click click_world 1 (GetByRole ''button'' (JStr ''Sign in'')))"
    "isl (click click_world 1 (GetByRole ''link'' (JStr ''Sign in'')))"
    "isl (click click_world 1 (LocatorText (JStr ''Sign in'')))"
    using h1 by (simp_all add: click_strategies_def)
  from each c1 h2 h3 h4 c2 c3 show ?thesis by blast
qed

text \<open>
  Claim C7 says the click is appended to the action history whether or not it
  succeeded. When all four attempts fail the history is left as it was.
\<close>

theorem failed_click_not_recorded:
  "EvClick 1 (LocatorText (JStr ''Sign in''))
     \<in> set (trace (snd (run_journey click_world init ''http://shop.test/'' ''sign up'' 1 False))) \<and>
   action_history (self (snd (run_journey click_world init ''http://shop.test/'' ''sign up'' 1 False)))
     = action_history init"
proof -
  have "action_history init = []" by (simp add: init_def)
  then show ?thesis by (simp add: click_run_trace click_run_history)
qed

text \<open>
  Claim C7, amended. After a click action is dispatched, \<open>Clicked: label\<close> is appended
  to the action history exactly when one of the four strategies succeeds; otherwise the
  history is unchanged. Either way the loop continues with the next index.
\<close>

theorem click_recorded_only_on_success:
  assumes "subscript dec ''action'' = Inr (JStr ''click'')"
    and "subscript dec ''label'' = Inr l"
    and "cb \<longrightarrow> progress_line dec = Inr ()"
  shows "fst (dispatch w cb k dec s) = Inr Next \<and>
         action_history (self (snd (dispatch w cb k dec s))) =
           action_history (self s) @
             (if \<exists>st \<in> set (click_strategies l). click w k st = Inr ()
              then [''Clicked: '' @ py_str w l] else [])"
  by (simp only: dispatch_click [OF assms] fst_conv snd_conv click_loop_history simp_thms)

text \<open>C7 with a click that succeeds and with one that does not.\<close>

theorem click_recorded_only_on_success_witness:
  "subscript (demo_decision ''click'') ''action'' = Inr (JStr ''click'') \<and>
   subscript (demo_decision ''click'') ''label'' = Inr (JStr ''Sign in'') \<and>
   progress_line (demo_decision ''click'') = Inr () \<and>
   action_history (self (snd (dispatch link_click_world True 1 (demo_decision ''click'')
      (entry_state link_click_world init ''http://shop.test/'')))) = [''Clicked: Sign in''] \<and>
   action_history (self (snd (dispatch click_world True 1 (demo_decision ''click'')
      (entry_state click_world init ''http://shop.test/'')))) = []"
proof -
  have h2: "subscript (demo_decision ''click'') ''action'' = Inr (JStr ''click'')"
    by (simp add: demo_decision_def)
  have h3: "subscript (demo_decision ''click'') ''label'' = Inr (JStr ''Sign in'')"
    by (simp add: demo_decision_def)
  have h4: "progress_line (demo_decision ''click'') = Inr ()"
    by (simp add: demo_decision_def progress_line_def)
  then have h4': "True \<longrightarrow> progress_line (demo_decision ''click'') = Inr ()" by simp
  have ok: "\<exists>st \<in> set (click_strategies (JStr ''Sign in'')). click link_click_world 1 st = Inr ()"
    by (simp add: click_strategies_def world_defs demo_world_def)
  have none: "\<not> (\<exists>st \<in> set (click_strategies (JStr ''Sign in'')). click click_world 1 st = Inr ())"
    by (simp add: click_strategies_def world_defs demo_world_def)
  from click_recorded_only_on_success [OF h2 h3 h4', of link_click_world 1
      "entry_state link_click_world init ''http://shop.test/''"] ok
  have a: "action_history (self (snd (dispatch link_click_world True 1 (demo_decision ''click'')
      (entry_state link_click_world init ''http://shop.test/'')))) = [''Clicked: Sign in'']"
    by (simp add: py_str_def init_def)
  from click_recorded_only_on_success [OF h2 h3 h4', of click_world 1
      "entry_state click_world init ''http://shop.test/''"] none
  have b: "action_history (self (snd (dispatch click_world True 1 (demo_decision ''click'')
      (entry_state click_world init ''http://shop.test/'')))) = []"
    by (simp add: init_def)
  from h2 h3 h4 a b show ?thesis by blast
qed

subsection \<open>Failed screenshots; what a run keeps\<close>

lemma journey_step_failed_screenshot:
  "screenshot w k = Inl e \<Longrightarrow>
     journey_step w cb goal k s = (Next, emit (EvScreenshot k (screenshot_name w k)) s)"
  by (simp add: journey_step_def step_body_def Let_def)

text \<open>
  Claim C8 says a failed screenshot does not use up a step index and that the log is a
  prefix of the steps attempted. With two steps and a screenshot that fails at step 1,
  the only record carries index 2.
\<close>

theorem failed_screenshot_index_not_reused:
  "screenshot late_shot_world 1 = Inl ''Timeout 20000ms exceeded'' \<and>
   map step (fst (run_journey late_shot_world init ''http://shop.test/'' ''sign up'' 2 False)) = [2] \<and>
   \<not> prefix (map step (fst (run_journey late_shot_world init ''http://shop.test/'' ''sign up'' 2 False)))
       [1, 2]"
  by (simp add: late_shot_steps) (simp add: world_defs demo_world_def)

text \<open>
  Claim C8, amended. When the screenshot of step \<open>k\<close> fails, no record is created for
  that step and the loop continues with the next index; the index \<open>k\<close> is used up: no
  record of a journey on a fresh instance carries it, the indices of the log are a
  subsequence of \<open>1..max_steps\<close>, and the log has fewer than \<open>max_steps\<close> records.
\<close>

theorem failed_screenshot_consumes_index:
  assumes "screenshot w k = Inl e" and "1 \<le> k" and "k \<le> max_steps"
  shows "journey_step w cb goal k s = (Next, emit (EvScreenshot k (screenshot_name w k)) s) \<and>
         journey_loop w cb goal (k # rest) s =
           journey_loop w cb goal rest (emit (EvScreenshot k (screenshot_name w k)) s) \<and>
         (\<forall>r \<in> set (fst (run_journey w init start_url goal max_steps cb)). step r \<noteq> k) \<and>
         subseq (map step (fst (run_journey w init start_url goal max_steps cb))) [1..max_steps] \<and>
         length (fst (run_journey w init start_url goal max_steps cb)) < nat max_steps"
proof (intro conjI)
  let ?js = "fst (run_journey w init start_url goal max_steps cb)"
  show st: "journey_step w cb goal k s = (Next, emit (EvScreenshot k (screenshot_name w k)) s)"
    using assms(1) by (rule journey_step_failed_screenshot)
  show "journey_loop w cb goal (k # rest) s =
           journey_loop w cb goal rest (emit (EvScreenshot k (screenshot_name w k)) s)"
    by (simp add: st)
  have facts: "subseq (map step ?js) [1..max_steps] \<and> (\<forall>r \<in> set ?js. recorded w goal r)"
  proof (cases "completes w start_url")
    case True
    then show ?thesis by (rule run_journey_fresh_added)
  next
    case False
    then show ?thesis by (simp add: run_journey_aborts)
  qed
  show no_k: "\<forall>r \<in> set ?js. step r \<noteq> k"
  proof
    fix r assume "r \<in> set ?js"
    with facts have "screenshot w (step r) = Inr ()" by (simp add: recorded_def)
    with assms(1) show "step r \<noteq> k" by auto
  qed
  show sub: "subseq (map step ?js) [1..max_steps]" using facts by blast
  have "length (map step ?js) \<noteq> length [1..max_steps]"
  proof
    assume "length (map step ?js) = length [1..max_steps]"
    with sub have "map step ?js = [1..max_steps]" by (rule subseq_same_length)
    then have "k \<in> set (map step ?js)" using assms(2,3) by simp
    with no_k show False by auto
  qed
  moreover have "length (map step ?js) \<le> length [1..max_steps]"
    using sub by (rule list_emb_length)
  ultimately show "length ?js < nat max_steps" using assms(2,3) by simp
qed

text \<open>C8 with a screenshot that fails at step 1 of 2.\<close>

theorem failed_screenshot_consumes_index_witness:
  "screenshot late_shot_world 1 = Inl ''Timeout 20000ms exceeded'' \<and> (1::int) \<le> 1 \<and> (1::int) \<le> 2 \<and>
   1 \<notin> set (map step
     (fst (run_journey late_shot_world init ''http://shop.test/'' ''sign up'' 2 False))) \<and>
   length (fst (run_journey late_shot_world init ''http://shop.test/'' ''sign up'' 2 False)) < nat 2"
proof -
  have h1: "screenshot late_shot_world 1 = Inl ''Timeout 20000ms exceeded''"
    by (simp add: world_defs demo_world_def)
  have h2: "(1::int) \<le> 1" and h3: "(1::int) \<le> 2" by simp_all
  note t = failed_screenshot_consumes_index [OF h1 h2 h3, where start_url = "''http://shop.test/''" and goal = "''sign up''" and cb = False]
  from t have "\<forall>r \<in> set (fst (run_journey late_shot_world init ''http://shop.test/''
      ''sign up'' 2 False)). step r \<noteq> 1" by blast
  then have c1: "1 \<notin> set (map step
     (fst (run_journey late_shot_world init ''http://shop.test/'' ''sign up'' 2 False)))"
    by auto
  from t have c2: "length (fst (run_journey late_shot_world init ''http://shop.test/''
      ''sign up'' 2 False)) < nat 2" by blast
  from h1 h2 h3 c1 c2 show ?thesis by blast
qed

lemma click_loop_history_prefix:
  "prefix (action_history (self s)) (action_history (self (snd (click_loop w k l strs s))))"
  by (simp add: click_loop_history)

lemma dispatch_history_prefix:
  "prefix (action_history (self s)) (action_history (self (snd (dispatch w cb k dec s))))"
  by (simp add: dispatch_state click_loop_history split: sum.splits)

lemma journey_step_history_prefix:
  "prefix (action_history (self s)) (action_history (self (snd (journey_step w cb goal k s))))"
proof (cases "screenshot w k")
  case (Inl e)
  then show ?thesis by (simp add: journey_step_failed_screenshot)
next
  case (Inr u)
  let ?dec = "get_ai_decision w (screenshot_name w k) goal (action_history (self s)) k"
  let ?s4 = "(emit (EvScore k (screenshot_name w k) (page_url w k))
               (emit (EvDecide k (screenshot_name w k))
                 (emit (EvScreenshot k (screenshot_name w k)) s)))
             \<lparr>self := (self s)\<lparr>screenshots := screenshots (self s) @
                [\<lparr>path = screenshot_name w k, step = k, url = page_url w k, decision = ?dec,
                  ux_analysis = analyze_screenshot_ux w (screenshot_name w k) (page_url w k)\<rparr>]\<rparr>\<rparr>"
  have eq: "step_body w cb goal k s = dispatch w cb k ?dec ?s4"
    using Inr by (simp add: step_body_def Let_def)
  from dispatch_history_prefix [of ?s4 w cb k ?dec] show ?thesis
    by (simp add: journey_step_state eq)
qed

lemma journey_loop_history_prefix:
  "prefix (action_history (self s)) (action_history (self (journey_loop w cb goal ks s)))"
proof (induction ks arbitrary: s)
  case Nil
  then show ?case by simp
next
  case (Cons k ks)
  obtain f s' where st: "journey_step w cb goal k s = (f, s')"
    by (cases "journey_step w cb goal k s")
  from journey_step_history_prefix [of s w cb goal k] st
  have p1: "prefix (action_history (self s)) (action_history (self s'))" by simp
  show ?case
  proof (cases f)
    case Break
    with st p1 show ?thesis by simp
  next
    case Next
    from p1 Cons.IH [of s'] have
      "prefix (action_history (self s)) (action_history (self (journey_loop w cb goal ks s')))"
      by (rule prefix_order.trans)
    with st Next show ?thesis by simp
  qed
qed

lemma journey_loop_screenshots_prefix:
  "prefix (screenshots (self s)) (screenshots (self (journey_loop w cb goal ks s)))"
  using journey_loop_added [of w cb goal ks s] by (auto simp add: prefix_def)

text \<open>The final instance is the given one, or the one the loop leaves.\<close>

lemma run_journey_self:
  "self (snd (run_journey w me start_url goal max_steps cb)) = me \<or>
   (\<exists>s. self s = me \<and>
      self (snd (run_journey w me start_url goal max_steps cb)) =
        self (journey_loop w cb goal [1..max_steps] s))"
proof -
  have close: "self (snd (close_and_return w v s)) = self s" for v s
    by (simp add: close_and_return_def Let_def split: sum.splits)
  have sc: "self (snd (steps_and_close w cb goal max_steps s)) =
      self (journey_loop w cb goal [1..max_steps] s)" for s
    by (simp add: steps_and_close_def Let_def close)
  have snd_run: "snd (run_journey w me start_url goal max_steps cb) =
      snd (journey_body w me start_url goal max_steps cb)"
    by (cases "journey_body w me start_url goal max_steps cb")
       (auto simp add: run_journey_def split: sum.splits)
  show ?thesis
    unfolding snd_run journey_body_def Let_def
    by (auto simp add: sc close split: sum.splits
        intro: exI [of _ "emit (EvGotoCommit start_url) (emit EvNewPage (emit EvNewContext \<lparr>self = me, trace = [EvLaunch]\<rparr>))"]
               exI [of _ "emit (EvGotoFull start_url) (emit (EvGotoCommit start_url) (emit EvNewPage (emit EvNewContext \<lparr>self = me, trace = [EvLaunch]\<rparr>)))"])
qed

lemma run_journey_keeps:
  "prefix (screenshots me) (screenshots (self (snd (run_journey w me start_url goal max_steps cb)))) \<and>
   prefix (action_history me)
     (action_history (self (snd (run_journey w me start_url goal max_steps cb))))"
  using run_journey_self [of w me start_url goal max_steps cb]
    journey_loop_screenshots_prefix journey_loop_history_prefix
  by (metis prefix_order.order_refl)

subsection \<open>Closing the browser; running twice\<close>

lemma journey_step_no_close:
  "count_list (trace (snd (journey_step w cb goal k s))) EvClose = count_list (trace s) EvClose"
proof -
  from journey_step_trace [of w cb goal k s] obtain acts where
    tr: "trace (snd (journey_step w cb goal k s)) =
            trace s @ EvScreenshot k (screenshot_name w k) #
              (case screenshot w k of
                 Inl e \<Rightarrow> []
               | Inr _ \<Rightarrow> EvDecide k (screenshot_name w k) #
                          EvScore k (screenshot_name w k) (page_url w k) # acts)"
    and acts: "\<forall>ev \<in> set acts. action_step ev = Some k"
    by blast
  from acts have "EvClose \<notin> set acts" by auto
  then have "count_list acts EvClose = 0" by simp
  then show ?thesis unfolding tr by (simp split: sum.splits)
qed

lemma journey_loop_no_close:
  "count_list (trace (journey_loop w cb goal ks s)) EvClose = count_list (trace s) EvClose"
proof (induction ks arbitrary: s)
  case Nil
  then show ?case by simp
next
  case (Cons k ks)
  obtain f s' where st: "journey_step w cb goal k s = (f, s')"
    by (cases "journey_step w cb goal k s")
  from journey_step_no_close [of w cb goal k s] st
  have "count_list (trace s') EvClose = count_list (trace s) EvClose" by simp
  with Cons.IH [of s'] st show ?case by (cases f) simp_all
qed

text \<open>
  Once the page exists, every way out of the run calls \<open>browser.close()\<close> exactly once:
  after the loop (finish or exhaustion) and when both loading strategies fail.
\<close>

lemma browser_closed_once_after_setup:
  assumes "launch w = Inr ()" and "new_context w = Inr ()" and "new_page w = Inr ()"
  shows "count_list (trace (snd (run_journey w me start_url goal max_steps cb))) EvClose = 1"
proof -
  have close: "count_list (trace (snd (close_and_return w v s))) EvClose =
      Suc (count_list (trace s) EvClose)" for v s
    by (simp add: close_and_return_def Let_def split: sum.splits)
  have sc: "count_list (trace (snd (steps_and_close w cb goal max_steps s))) EvClose =
      Suc (count_list (trace s) EvClose)" for s
    by (simp add: steps_and_close_def Let_def close journey_loop_no_close)
  have snd_run: "snd (run_journey w me start_url goal max_steps cb) =
      snd (journey_body w me start_url goal max_steps cb)"
    by (cases "journey_body w me start_url goal max_steps cb")
       (auto simp add: run_journey_def split: sum.splits)
  show ?thesis
    unfolding snd_run journey_body_def Let_def
    using assms by (simp add: sc close split: sum.splits)
qed

text \<open>
  Claim C2 says that \<open>browser.close()\<close> is called exactly once on every way out of
  \<open>run_journey\<close>, fatal errors included. The handler of the outer \<open>try\<close> returns
  \<open>[]\<close> without closing: when the browser has started and \<open>new_context\<close> raises,
  the run ends with no call of \<open>close\<close> at all.
\<close>

theorem close_skipped_when_context_fails:
  "run_journey no_context_world init ''http://shop.test/'' ''sign up'' 3 True =
     ([], \<lparr>self = init, trace = [EvLaunch, EvNewContext]\<rparr>) \<and>
   launch no_context_world = Inr () \<and>
   count_list (trace (snd (run_journey no_context_world init ''http://shop.test/'' ''sign up'' 3 True)))
     EvClose = 0"
  by (simp add: no_context_run) (simp add: world_defs demo_world_def)

text \<open>
  Claim C10. \<open>run_journey\<close> never resets the two lists of the instance: whatever the
  world does, the log and the action history it leaves extend the ones it found, and a
  run that reaches its \<open>return self.screenshots\<close> returns a list that starts with the
  records already there. So the bound and the ordering of the indices are those of a
  fresh instance only: two runs of two steps on the same instance return four records,
  with the indices 1, 2, 1, 2.
\<close>

theorem log_persists_across_runs:
  "prefix (screenshots me)
     (screenshots (self (snd (run_journey w me start_url goal max_steps cb)))) \<and>
   prefix (action_history me)
     (action_history (self (snd (run_journey w me start_url goal max_steps cb)))) \<and>
   (completes w start_url \<longrightarrow>
      fst (run_journey w me start_url goal max_steps cb) =
        screenshots (self (snd (run_journey w me start_url goal max_steps cb))) \<and>
      prefix (screenshots me) (fst (run_journey w me start_url goal max_steps cb))) \<and>
   map step (fst (run_journey scroll_world
      (self (snd (run_journey scroll_world init ''http://shop.test/'' ''sign up'' 2 False)))
      ''http://shop.test/'' ''sign up'' 2 False)) = [1, 2, 1, 2]"
proof (intro conjI impI)
  show "prefix (screenshots me)
     (screenshots (self (snd (run_journey w me start_url goal max_steps cb))))"
    using run_journey_keeps by blast
  show "prefix (action_history me)
     (action_history (self (snd (run_journey w me start_url goal max_steps cb))))"
    using run_journey_keeps by blast
  show "map step (fst (run_journey scroll_world
      (self (snd (run_journey scroll_world init ''http://shop.test/'' ''sign up'' 2 False)))
      ''http://shop.test/'' ''sign up'' 2 False)) = [1, 2, 1, 2]"
    by (rule scroll_run_twice)
next
  assume c: "completes w start_url"
  show "fst (run_journey w me start_url goal max_steps cb) =
        screenshots (self (snd (run_journey w me start_url goal max_steps cb)))"
    by (simp add: run_journey_completes [OF c])
  show "prefix (screenshots me) (fst (run_journey w me start_url goal max_steps cb))"
    by (simp add: run_journey_completes [OF c] journey_loop_screenshots_prefix
        [of "entry_state w me start_url", simplified])
qed

text \<open>C10 for a second run on the instance left by a first one.\<close>

theorem log_persists_across_runs_witness:
  "completes scroll_world ''http://shop.test/'' \<and>
   prefix (screenshots (self (snd (run_journey scroll_world init ''http://shop.test/'' ''sign up'' 2 False))))
     (fst (run_journey scroll_world
        (self (snd (run_journey scroll_world init ''http://shop.test/'' ''sign up'' 2 False)))
        ''http://shop.test/'' ''sign up'' 2 False))"
  using log_persists_across_runs [of
      "self (snd (run_journey scroll_world init ''http://shop.test/'' ''sign up'' 2 False))"
      scroll_world "''http://shop.test/''" "''sign up''" 2 False]
    scroll_world_completes
  by blast

end
